theory Spec2Isabelle
  imports Main "HOL-Library.AList" "HOL-Library.Sublist"
begin

section \<open>The tox environment lifecycle (\<open>tox/tox_env/api.py\<close>, class \<open>ToxEnv\<close>)\<close>

text \<open>
  A shallow embedding of the abstract base class \<open>ToxEnv\<close>. Python dictionaries keep their
  insertion order and overwrite a present key in place, which is what an association list
  under \<open>AList.update\<close> does, so every \<open>dict\<close> of the source is an association list here.
  Strings are \<open>string\<close>; the names of environment variables are taken as they are
  (POSIX: case matters).
\<close>

subsection \<open>Strings and dictionaries of the Python library\<close>

text \<open>\<open>sep.join(xs)\<close> for a one-character separator.\<close>

fun join :: "char \<Rightarrow> string list \<Rightarrow> string" where
  "join sep [] = []"
| "join sep [x] = x"
| "join sep (x # y # ys) = x @ sep # join sep (y # ys)"

text \<open>
  \<open>s.split(sep)\<close> for a one-character separator: the result is never empty, the
  empty string splits into one empty field, and adjacent separators give empty fields.
\<close>

fun split_sep :: "char \<Rightarrow> string \<Rightarrow> string list" where
  "split_sep sep [] = [[]]"
| "split_sep sep (c # cs) =
     (if c = sep then [] # split_sep sep cs
      else (case split_sep sep cs of
              [] \<Rightarrow> [[c]]
            | w # ws \<Rightarrow> (c # w) # ws))"

text \<open>\<open>dict.fromkeys(ks)\<close>: every key once, at the place of its first occurrence, value \<open>None\<close>.\<close>

definition dict_fromkeys :: "'k list \<Rightarrow> ('k \<times> unit) list" where
  "dict_fromkeys ks = fold (\<lambda>k d. AList.update k () d) ks []"

text \<open>\<open>d.update(other)\<close>.\<close>

definition dict_update :: "('k \<times> 'v) list \<Rightarrow> ('k \<times> 'v) list \<Rightarrow> ('k \<times> 'v) list" where
  "dict_update d other = fold (\<lambda>(k, v) r. AList.update k v r) other d"

text \<open>\<open>d.get(k, default)\<close>.\<close>

definition dict_get :: "('k \<times> 'v) list \<Rightarrow> 'k \<Rightarrow> 'v \<Rightarrow> 'v" where
  "dict_get d k dflt = (case map_of d k of None \<Rightarrow> dflt | Some v \<Rightarrow> v)"

text \<open>
  \<open>ToxEnv._make_path\<close>, as a function of the owned directories (\<open>str(i) for i in self._paths\<close>,
  given already as strings), the process environment and \<open>os.pathsep\<close>.
\<close>

definition make_path_of :: "char \<Rightarrow> string list \<Rightarrow> (string \<times> string) list \<Rightarrow> string" where
  "make_path_of pathsep paths environ =
     (let values = dict_fromkeys paths;
          values = dict_update values (dict_fromkeys (split_sep pathsep (dict_get environ ''PATH'' '''')));
          result = join pathsep (map fst values)
      in result)"

text \<open>
  The words of the specification: de-duplicate with the first occurrence winning. Every
  element is kept where it first occurs and all its later occurrences are dropped.
\<close>

fun dedup_first :: "'a list \<Rightarrow> 'a list" where
  "dedup_first [] = []"
| "dedup_first (x # xs) = x # dedup_first (filter (\<lambda>y. y \<noteq> x) xs)"

subsection \<open>The regular expressions of pass_env and platform\<close>

text \<open>
  The source hands patterns to Python's \<open>re\<close> module. The fragment modelled here is the
  one a glob entry of \<open>pass_env\<close> produces: ordinary characters, \<open>.\<close> and a starred
  character or \<open>.\<close>. A pattern that holds any other character with a special meaning in
  \<open>re\<close> is outside the fragment, and \<open>re_compile\<close> returns \<open>None\<close> for it.
\<close>

datatype atom = Lit char | AnyChar

datatype item = One atom | Star atom

type_synonym regex = "item list"

text \<open>Without the \<open>DOTALL\<close> flag, \<open>.\<close> matches every character but the newline.\<close>

fun atom_matches :: "atom \<Rightarrow> char \<Rightarrow> bool" where
  "atom_matches (Lit a) c = (a = c)"
| "atom_matches AnyChar c = (c \<noteq> CHR 0x0A)"

definition re_special :: "char \<Rightarrow> bool" where
  "re_special c = (c \<in> set [CHR 0x5C, CHR ''^'', CHR ''$'', CHR ''*'', CHR ''+'', CHR ''?'',
       CHR ''{'', CHR ''}'', CHR ''['', CHR '']'', CHR ''('', CHR '')'', CHR ''|''])"

definition atom_of :: "char \<Rightarrow> atom" where
  "atom_of c = (if c = CHR ''.'' then AnyChar else Lit c)"

fun re_compile :: "string \<Rightarrow> regex option" where
  "re_compile [] = Some []"
| "re_compile [c] = (if re_special c then None else Some [One (atom_of c)])"
| "re_compile (c # d # cs) =
     (if re_special c then None
      else if d = CHR ''*'' then map_option (Cons (Star (atom_of c))) (re_compile cs)
      else map_option (Cons (One (atom_of c))) (re_compile (d # cs)))"

text \<open>
  Whether a compiled pattern matches at the start of a string. With \<open>full\<close> the match has
  to reach the end of the string (\<open>re.fullmatch\<close>), without it any prefix will do
  (\<open>Pattern.match\<close>). Only the existence of a match is computed, which is all the source
  asks for (\<open>is not None\<close>, \<open>is None\<close>).
\<close>

fun matches :: "bool \<Rightarrow> regex \<Rightarrow> string \<Rightarrow> bool" where
  "matches full [] s = (if full then s = [] else True)"
| "matches full (One a # r) [] = False"
| "matches full (One a # r) (c # s) = (atom_matches a c \<and> matches full r s)"
| "matches full (Star a # r) [] = matches full r []"
| "matches full (Star a # r) (c # s) =
     (if atom_matches a c \<and> matches full (Star a # r) s then True else matches full r (c # s))"

definition re_match :: "regex \<Rightarrow> string \<Rightarrow> bool" where
  "re_match g s = matches False g s"

definition re_fullmatch :: "regex \<Rightarrow> string \<Rightarrow> bool" where
  "re_fullmatch g s = matches True g s"

text \<open>
  The language of a compiled pattern, by its structure: the strings the pattern describes
  from their first to their last character.
\<close>

fun lang :: "regex \<Rightarrow> string set" where
  "lang [] = {[]}"
| "lang (One a # r) = {c # w | c w. atom_matches a c \<and> w \<in> lang r}"
| "lang (Star a # r) = {u @ w | u w. list_all (atom_matches a) u \<and> w \<in> lang r}"

text \<open>\<open>e.replace("*", ".*")\<close> and \<open>"*" in e\<close>.\<close>

definition replace_star :: "string \<Rightarrow> string" where
  "replace_star e = concat (map (\<lambda>c. if c = CHR ''*'' then ''.*'' else [c]) e)"

definition has_star :: "string \<Rightarrow> bool" where
  "has_star e = (CHR ''*'' \<in> set e)"

subsection \<open>Exceptions, observable calls and the state of an environment\<close>

datatype exn =
    Skip string
  | Recreate string
  | SystemExit int
  | ReError string
  | Failure string

text \<open>
  \<open>ReError\<close> stands for a pattern outside the modelled fragment of \<open>re\<close>; \<open>Failure\<close> for
  any other exception a collaborator raises.
\<close>

type_synonym path = "string list"

datatype callee = SetupEnv | SetupWithEnv | DoneWithSetup | TeardownHook | Clean bool

datatype stdin_source = OFF | USER | API

record execute_request =
  req_cmd :: "string list"
  req_cwd :: path
  req_env :: "(string \<times> string) list"
  req_stdin :: stdin_source
  req_run_id :: string

text \<open>
  What an operation does to the outside, in the order it does it: the methods it enters,
  the lines it logs, the directories it removes and creates, the cache reset, the
  interrupt it forwards to a live status and the call of the executor.
\<close>

datatype event =
    Call callee
  | LogWarning string
  | LogDebug string
  | LogCommand string string "string list"
  | RmTree path
  | Mkdir path
  | CacheReset
  | StatusInterrupt nat
  | ExecutorCall execute_request bool

record run_state =
  rs_setup :: bool
  rs_clean :: bool
  rs_teardown :: bool

type_synonym fingerprint = "string \<times> string"

type_synonym info = "(string \<times> fingerprint) list"

text \<open>
  The fields of a \<open>ToxEnv\<close> object with the configuration values it reads
  (\<open>conf.name\<close>, \<open>type(self).__name__\<close>, \<open>conf["platform"]\<close>, \<open>runs_on_platform\<close>,
  \<open>conf["recreate"]\<close>, \<open>conf["pass_env"]\<close>, the keys of \<open>conf["set_env"]\<close>, \<open>env_dir\<close>,
  \<open>env_tmp_dir\<close>, \<open>core["tox_root"]\<close>, \<open>options.verbosity\<close>), followed by the part of the
  process it works on: the directories that exist, \<open>os.environ\<close>, \<open>os.pathsep\<close> and the
  working directory \<open>_CWD\<close>. A path is the list of its components; the entries of \<open>_paths\<close>
  are kept as the strings \<open>str(i)\<close> gives.
\<close>

record tox_env =
  conf_name :: string
  class_name :: string
  conf_platform :: string
  runs_on_platform :: string
  conf_recreate :: bool
  conf_pass_env :: "string list"
  conf_set_env :: "string list"
  env_dir :: path
  env_tmp_dir :: path
  tox_root :: path
  verbosity :: int
  run_state :: run_state
  paths_private :: "string list"
  env_vars :: "(string \<times> string) list option"
  execute_statuses :: "nat list"
  interrupted :: bool
  cache :: info
  fs :: "path list"
  os_environ :: "(string \<times> string) list"
  pathsep :: char
  process_cwd :: path

text \<open>
  The collaborators of the class that are not under \<open>tox/tox_env/api.py\<close>, taken as
  parameters: the methods a subclass overrides (\<open>_setup_with_env\<close>, \<open>_done_with_setup\<close>,
  \<open>_teardown\<close>), each a state transformer that may raise; \<open>SetEnv.load\<close>, which resolves
  an override lazily and may read the mapping built so far; and the executor, which
  returns the identity of the live status or raises.
\<close>

record hooks =
  hook_setup_with_env :: "tox_env \<Rightarrow> exn option \<times> tox_env"
  hook_done_with_setup :: "tox_env \<Rightarrow> exn option \<times> tox_env"
  hook_teardown :: "tox_env \<Rightarrow> exn option \<times> tox_env"
  set_env_load :: "(string \<times> string) list \<Rightarrow> string \<Rightarrow> string"
  executor_call :: "execute_request \<Rightarrow> bool \<Rightarrow> tox_env \<Rightarrow> (exn + nat) \<times> tox_env"

text \<open>The methods as the base class defines them: \<open>pass\<close>.\<close>

definition base_hooks :: "((string \<times> string) list \<Rightarrow> string \<Rightarrow> string) \<Rightarrow>
    (execute_request \<Rightarrow> bool \<Rightarrow> tox_env \<Rightarrow> (exn + nat) \<times> tox_env) \<Rightarrow> hooks" where
  "base_hooks load exec =
     \<lparr>hook_setup_with_env = (\<lambda>s. (None, s)),
      hook_done_with_setup = (\<lambda>s. (None, s)),
      hook_teardown = (\<lambda>s. (None, s)),
      set_env_load = load,
      executor_call = exec\<rparr>"

subsection \<open>Statements\<close>

text \<open>
  A method is a function from the state to the exception it raises, if any, the state it
  leaves and the events it caused. A raised exception keeps the state reached so far, as
  the mutations of a Python object survive the exception.
\<close>

type_synonym action = "tox_env \<Rightarrow> exn option \<times> tox_env \<times> event list"

definition pass :: action where
  "pass s = (None, s, [])"

definition raise :: "exn \<Rightarrow> action" where
  "raise e s = (Some e, s, [])"

definition emit :: "event \<Rightarrow> action" where
  "emit ev s = (None, s, [ev])"

definition modify :: "(tox_env \<Rightarrow> tox_env) \<Rightarrow> action" where
  "modify f s = (None, f s, [])"

definition seq :: "action \<Rightarrow> action \<Rightarrow> action" where
  "seq a b s =
     (case a s of
        (Some e, s1, t1) \<Rightarrow> (Some e, s1, t1)
      | (None, s1, t1) \<Rightarrow> (case b s1 of (r, s2, t2) \<Rightarrow> (r, s2, t1 @ t2)))"

fun seqs :: "action list \<Rightarrow> action" where
  "seqs [] = pass"
| "seqs (a # as) = seq a (seqs as)"

text \<open>Entering an overridable method: the call is observed, then the method runs.\<close>

definition call_hook :: "callee \<Rightarrow> (tox_env \<Rightarrow> exn option \<times> tox_env) \<Rightarrow> action" where
  "call_hook m f s = (case f s of (r, s1) \<Rightarrow> (r, s1, [Call m]))"

text \<open>
  \<open>try: body / except: handler / else: orelse\<close>. The handler is \<open>None\<close> for an exception
  no \<open>except\<close> clause catches. An exception of the handler or of \<open>orelse\<close> is not caught.
\<close>

definition try_except_else :: "action \<Rightarrow> (exn \<Rightarrow> action option) \<Rightarrow> action \<Rightarrow> action" where
  "try_except_else body handler orelse s =
     (case body s of
        (None, s1, t1) \<Rightarrow> (case orelse s1 of (r, s2, t2) \<Rightarrow> (r, s2, t1 @ t2))
      | (Some e, s1, t1) \<Rightarrow>
          (case handler e of
             None \<Rightarrow> (Some e, s1, t1)
           | Some h \<Rightarrow> (case h s1 of (r, s2, t2) \<Rightarrow> (r, s2, t1 @ t2))))"

text \<open>
  \<open>try: a / finally: f\<close>: \<open>f\<close> runs on every exit of \<open>a\<close>; the exception of \<open>a\<close> goes on
  afterwards unless \<open>f\<close> raises one of its own.
\<close>

definition try_finally :: "action \<Rightarrow> action \<Rightarrow> action" where
  "try_finally a f s =
     (case a s of (r, s1, t1) \<Rightarrow>
        (case f s1 of (r2, s2, t2) \<Rightarrow>
           ((case r2 of None \<Rightarrow> r | Some e \<Rightarrow> Some e), s2, t1 @ t2)))"

subsection \<open>Directories\<close>

text \<open>
  The directory tree is the list of the paths that exist. \<open>shutil.rmtree(p)\<close> removes \<open>p\<close>
  and everything below it, \<open>p.mkdir(parents=True, exist_ok=True)\<close> creates \<open>p\<close> and the
  missing ones of its parents, \<open>next(p.iterdir(), None) is not None\<close> asks for an entry
  directly below \<open>p\<close>. The operations themselves are taken to succeed.
\<close>

definition path_exists :: "path \<Rightarrow> path list \<Rightarrow> bool" where
  "path_exists p tree = (p \<in> set tree)"

definition has_entry :: "path \<Rightarrow> path list \<Rightarrow> bool" where
  "has_entry p tree = list_ex (\<lambda>q. length q = Suc (length p) \<and> prefix p q) tree"

definition rmtree :: "path \<Rightarrow> path list \<Rightarrow> path list" where
  "rmtree p tree = filter (\<lambda>q. \<not> prefix p q) tree"

definition mkdir_parents :: "path \<Rightarrow> path list \<Rightarrow> path list" where
  "mkdir_parents p tree = tree @ filter (\<lambda>q. q \<notin> set tree) (prefixes p)"

definition show_path :: "path \<Rightarrow> string" where
  "show_path p = concat (map (\<lambda>c. CHR ''/'' # c) p)"

subsection \<open>The fingerprint cache (\<open>Info\<close>)\<close>

text \<open>
  Modelled from the spec: the class \<open>Info\<close> of \<open>tox/tox_env/info.py\<close> is not among the
  sources. The specification (4.4) gives \<open>compare(candidate, marker)\<close> as a scoped
  read-compare-write: it reads the fingerprint stored for \<open>marker\<close>, reports whether it
  equals the candidate and what it was; when none was stored it persists the candidate as
  the new baseline and reports no mismatch; a stored fingerprint that differs is left as
  it is until a reset.
\<close>

definition info_compare :: "fingerprint \<Rightarrow> string \<Rightarrow> info \<Rightarrow> (bool \<times> fingerprint option) \<times> info" where
  "info_compare candidate marker content =
     (case map_of content marker of
        None \<Rightarrow> ((True, None), AList.update marker candidate content)
      | Some old \<Rightarrow> ((old = candidate, Some old), content))"

text \<open>
  Modelled from the spec: \<open>reset()\<close> of the same class discards all stored fingerprints
  of the environment.
\<close>

definition info_reset :: "info \<Rightarrow> info" where
  "info_reset content = []"

subsection \<open>Setup, clean and teardown\<close>

definition update_run_state :: "(run_state \<Rightarrow> run_state) \<Rightarrow> action" where
  "update_run_state f = modify (\<lambda>s. s\<lparr>run_state := f (run_state s)\<rparr>)"

text \<open>\<open>ToxEnv._platform_check\<close>.\<close>

definition platform_check :: action where
  "platform_check s =
     (let platform_str = conf_platform s in
      if platform_str \<noteq> [] then
        (case re_compile platform_str of
           None \<Rightarrow> raise (ReError platform_str) s
         | Some g \<Rightarrow>
             if \<not> re_fullmatch g (runs_on_platform s)
             then raise (Skip (''platform '' @ runs_on_platform s @ '' does not match '' @ platform_str)) s
             else pass s)
      else pass s)"

text \<open>\<open>ToxEnv._handle_env_tmp_dir\<close>.\<close>

definition handle_env_tmp_dir :: action where
  "handle_env_tmp_dir s =
     (let env_tmp_dir = env_tmp_dir s in
      seq (if path_exists env_tmp_dir (fs s) \<and> has_entry env_tmp_dir (fs s)
           then seqs [emit (LogDebug (''clear env temp folder '' @ show_path env_tmp_dir)),
                      emit (RmTree env_tmp_dir),
                      modify (\<lambda>s. s\<lparr>fs := rmtree env_tmp_dir (fs s)\<rparr>)]
           else pass)
          (seq (emit (Mkdir env_tmp_dir))
               (modify (\<lambda>s. s\<lparr>fs := mkdir_parents env_tmp_dir (fs s)\<rparr>))) s)"

text \<open>The \<open>repr\<close> of the fingerprint dictionary, for names without quotes or escapes.\<close>

definition repr_conf :: "fingerprint \<Rightarrow> string" where
  "repr_conf c = ''{'' @ [CHR 0x27] @ ''name'' @ [CHR 0x27] @ '': '' @ [CHR 0x27] @ fst c @ [CHR 0x27]
       @ '', '' @ [CHR 0x27] @ ''type'' @ [CHR 0x27] @ '': '' @ [CHR 0x27] @ snd c @ [CHR 0x27] @ ''}''"

text \<open>\<open>ToxEnv._setup_env\<close>.\<close>

definition setup_env :: action where
  "setup_env =
     seq (emit (Call SetupEnv))
       (\<lambda>s. let conf = (conf_name s, class_name s) in
             case info_compare conf ''ToxEnv'' (cache s) of
               ((eq, old), content) \<Rightarrow>
                 seq (modify (\<lambda>s. s\<lparr>cache := content\<rparr>))
                   (seq (case old of
                           Some previous \<Rightarrow>
                             if eq = False
                             then raise (Recreate (''env type changed from '' @ repr_conf previous
                                                   @ '' to '' @ repr_conf conf))
                             else pass
                         | None \<Rightarrow> pass)
                        handle_env_tmp_dir) s)"

text \<open>\<open>ToxEnv._setup_with_env\<close>, \<open>ToxEnv._done_with_setup\<close> and \<open>ToxEnv._teardown\<close>.\<close>

definition setup_with_env :: "hooks \<Rightarrow> action" where
  "setup_with_env h = call_hook SetupWithEnv (hook_setup_with_env h)"

definition done_with_setup :: "hooks \<Rightarrow> action" where
  "done_with_setup h = call_hook DoneWithSetup (hook_done_with_setup h)"

definition teardown_hook :: "hooks \<Rightarrow> action" where
  "teardown_hook h = call_hook TeardownHook (hook_teardown h)"

text \<open>\<open>ToxEnv._clean\<close>. The body never reads \<open>force\<close>.\<close>

definition clean :: "bool \<Rightarrow> action" where
  "clean force =
     seq (emit (Call (Clean force)))
       (\<lambda>s. if rs_clean (run_state s) then pass s
             else (let env_dir = env_dir s in
                   seqs [if path_exists env_dir (fs s)
                         then seqs [emit (LogWarning (''remove tox env folder '' @ show_path env_dir)),
                                    emit (RmTree env_dir),
                                    modify (\<lambda>s. s\<lparr>fs := rmtree env_dir (fs s)\<rparr>)]
                         else pass,
                         emit CacheReset,
                         modify (\<lambda>s. s\<lparr>cache := info_reset (cache s)\<rparr>),
                         update_run_state (\<lambda>r. r\<lparr>rs_setup := False, rs_clean := True\<rparr>)] s))"

text \<open>
  \<open>ToxEnv.setup\<close>; the bare name is a keyword of the theory language, hence the prefix.
  The \<open>else\<close> clause belongs to the \<open>try\<close>: it runs when the body raised nothing, and
  not after the \<open>except\<close> clause has recovered.
\<close>

definition toxenv_setup :: "hooks \<Rightarrow> bool \<Rightarrow> action" where
  "toxenv_setup h recreate s =
     (if rs_setup (run_state s) = False then
        seq platform_check
          (\<lambda>s. let recreate = recreate \<or> conf_recreate s in
                seq (if recreate then clean False else pass)
                  (try_finally
                     (try_except_else
                        (seq setup_env (setup_with_env h))
                        (\<lambda>exception. case exception of
                             Recreate reason \<Rightarrow>
                               Some (if \<not> recreate
                                     then seqs [emit (LogWarning (''recreate env because '' @ reason)),
                                                clean True,
                                                setup_env,
                                                setup_with_env h]
                                     else pass)
                           | _ \<Rightarrow> None)
                        (done_with_setup h))
                     (update_run_state (\<lambda>r. r\<lparr>rs_setup := True, rs_clean := False\<rparr>))) s) s
      else pass s)"

text \<open>\<open>ToxEnv.teardown\<close>.\<close>

definition teardown :: "hooks \<Rightarrow> action" where
  "teardown h s =
     (if \<not> rs_teardown (run_state s)
      then try_finally (teardown_hook h) (update_run_state (\<lambda>r. r\<lparr>rs_teardown := True\<rparr>)) s
      else pass s)"

subsection \<open>Environment variables and the search path\<close>

text \<open>\<open>ToxEnv._make_path\<close> on the state.\<close>

definition make_path :: "tox_env \<Rightarrow> string" where
  "make_path s = make_path_of (pathsep s) (paths_private s) (os_environ s)"

text \<open>The list comprehension that compiles the glob entries; the first failure ends it.\<close>

fun compile_all :: "string list \<Rightarrow> exn + regex list" where
  "compile_all [] = Inr []"
| "compile_all (e # es) =
     (case re_compile e of
        None \<Rightarrow> Inl (ReError e)
      | Some g \<Rightarrow> (case compile_all es of Inl x \<Rightarrow> Inl x | Inr gs \<Rightarrow> Inr (g # gs)))"

text \<open>The loop over \<open>literal_pass_env\<close>.\<close>

definition pass_literal :: "(string \<times> string) list \<Rightarrow> string list \<Rightarrow> (string \<times> string) list \<Rightarrow> (string \<times> string) list" where
  "pass_literal environ literal_pass_env result =
     fold (\<lambda>env result. case map_of environ env of
                           None \<Rightarrow> result
                         | Some v \<Rightarrow> AList.update env v result) literal_pass_env result"

text \<open>The loop over \<open>os.environ.items()\<close>, entered when there is a glob entry.\<close>

definition pass_glob :: "(string \<times> string) list \<Rightarrow> regex list \<Rightarrow> (string \<times> string) list \<Rightarrow> (string \<times> string) list" where
  "pass_glob environ glob_pass_env result =
     (if glob_pass_env \<noteq> []
      then fold (\<lambda>(env, value) result.
                   if list_ex (\<lambda>g. re_match g env) glob_pass_env
                   then AList.update env value result
                   else result) environ result
      else result)"

text \<open>The loop over the keys of \<open>set_env\<close>; \<open>load\<close> sees the mapping as it stands.\<close>

definition apply_set_env :: "((string \<times> string) list \<Rightarrow> string \<Rightarrow> string) \<Rightarrow> string list \<Rightarrow> (string \<times> string) list \<Rightarrow> (string \<times> string) list" where
  "apply_set_env load keys result =
     fold (\<lambda>key result. AList.update key (load result key) result) keys result"

text \<open>
  The property \<open>ToxEnv._environment_variables\<close>. \<open>self._env_vars\<close> is bound to the
  dictionary \<open>result\<close> before the path and the overrides go in, and it is that same
  dictionary afterwards, so the state ends with the finished mapping.
\<close>

definition environment_variables :: "hooks \<Rightarrow> tox_env \<Rightarrow> (exn + (string \<times> string) list) \<times> tox_env" where
  "environment_variables h s =
     (case env_vars s of
        Some cached \<Rightarrow> (Inr cached, s)
      | None \<Rightarrow>
          (let pass_env = conf_pass_env s in
           case compile_all (map replace_star (filter has_star pass_env)) of
             Inl e \<Rightarrow> (Inl e, s)
           | Inr glob_pass_env \<Rightarrow>
               (let literal_pass_env = filter (\<lambda>e. \<not> has_star e) pass_env;
                    result = pass_literal (os_environ s) literal_pass_env [];
                    result = pass_glob (os_environ s) glob_pass_env result;
                    result = AList.update ''PATH'' (make_path s) result;
                    result = apply_set_env (set_env_load h) (conf_set_env s) result
                in (Inr result, s\<lparr>env_vars := Some result\<rparr>))))"

text \<open>The property \<open>ToxEnv._paths\<close> and its setter.\<close>

definition get_paths :: "tox_env \<Rightarrow> string list" where
  "get_paths s = paths_private s"

definition set_paths :: "string list \<Rightarrow> tox_env \<Rightarrow> tox_env" where
  "set_paths v s =
     (let s = s\<lparr>paths_private := v\<rparr> in
      case env_vars s of
        Some m \<Rightarrow> (let result = make_path s in s\<lparr>env_vars := Some (AList.update ''PATH'' result m)\<rparr>)
      | None \<Rightarrow> s)"

subsection \<open>Interruption and execution\<close>

text \<open>\<open>ToxEnv.interrupt\<close>.\<close>

definition interrupt :: action where
  "interrupt =
     seqs [\<lambda>s. emit (LogWarning (''interrupt tox environment: '' @ conf_name s)) s,
           modify (\<lambda>s. s\<lparr>interrupted := True\<rparr>),
           \<lambda>s. (None, s, map StatusInterrupt (execute_statuses s))]"

text \<open>
  \<open>ToxEnv.execute_async\<close> from its entry to the \<open>yield\<close> that hands the live status to the
  caller. \<open>show\<close>, \<open>cwd\<close> and \<open>executor\<close> are optional arguments. The logged line takes the
  command as it is in the request.
\<close>

definition execute_async :: "hooks \<Rightarrow> string list \<Rightarrow> stdin_source \<Rightarrow> bool option \<Rightarrow> path option \<Rightarrow> string \<Rightarrow>
    (execute_request \<Rightarrow> bool \<Rightarrow> tox_env \<Rightarrow> (exn + nat) \<times> tox_env) option \<Rightarrow>
    tox_env \<Rightarrow> (exn + nat) \<times> tox_env \<times> event list" where
  "execute_async h cmd stdin show cwd run_id executor s =
     (if interrupted s then (Inl (SystemExit (- 2)), s, [])
      else
        (let cwd = (case cwd of None \<Rightarrow> tox_root s | Some c \<Rightarrow> c);
             show = (case show of None \<Rightarrow> verbosity s > 3 | Some b \<Rightarrow> b)
         in case environment_variables h s of
              (Inl e, s1) \<Rightarrow> (Inl e, s1, [])
            | (Inr env, s1) \<Rightarrow>
                (let request = \<lparr>req_cmd = cmd, req_cwd = cwd, req_env = env,
                                req_stdin = stdin, req_run_id = run_id\<rparr>;
                     repr_cwd = (if process_cwd s1 = req_cwd request then []
                                 else if prefix cwd (process_cwd s1)
                                 then '' '' @ join (CHR ''/'') (drop (length cwd) (process_cwd s1))
                                 else '' '' @ show_path cwd);
                     logged = [LogCommand run_id repr_cwd (req_cmd request)];
                     executor = (case executor of None \<Rightarrow> executor_call h | Some x \<Rightarrow> x)
                 in case executor request show s1 of
                      (Inl e, s2) \<Rightarrow> (Inl e, s2, logged @ [ExecutorCall request show])
                    | (Inr execute_id, s2) \<Rightarrow>
                        (Inr execute_id,
                         s2\<lparr>execute_statuses := (if execute_id \<in> set (execute_statuses s2)
                                                  then execute_statuses s2
                                                  else execute_statuses s2 @ [execute_id])\<rparr>,
                         logged @ [ExecutorCall request show]))))"

subsection \<open>Notions of the specification\<close>

text \<open>
  One provisioning attempt: the two statements \<open>self._setup_env()\<close>,
  \<open>self._setup_with_env()\<close> that the \<open>try\<close> body of \<open>setup\<close> holds and its \<open>except\<close> clause
  repeats.
\<close>

definition provision :: "hooks \<Rightarrow> action" where
  "provision h = seq setup_env (setup_with_env h)"

text \<open>The state and events with which the \<open>try\<close> statement of \<open>setup\<close> is entered.\<close>

definition before_try :: "bool \<Rightarrow> tox_env \<Rightarrow> tox_env \<times> event list" where
  "before_try recreate s =
     (if recreate \<or> conf_recreate s then snd (clean False s) else (s, []))"

text \<open>The final update of \<open>setup\<close>: \<open>self._run_state.update({"setup": True, "clean": False})\<close>.\<close>

definition mark_setup_done :: "tox_env \<Rightarrow> tox_env" where
  "mark_setup_done s = s\<lparr>run_state := (run_state s)\<lparr>rs_setup := True, rs_clean := False\<rparr>\<rparr>"

subsection \<open>Example environments\<close>

text \<open>
  An environment before its first setup: the directory of the environment exists and
  holds a \<open>lib\<close> directory, nothing is cached, \<open>pass_env\<close> holds one glob and one literal
  entry, \<open>set_env\<close> overrides \<open>FOOBAR\<close>.
\<close>

definition example_env :: tox_env where
  "example_env =
     \<lparr>conf_name = ''py'', class_name = ''VirtualEnvRunner'', conf_platform = [],
      runs_on_platform = ''linux'', conf_recreate = False,
      conf_pass_env = [''FOO*'', ''LANG''], conf_set_env = [''FOOBAR''],
      env_dir = [''work'', ''py''], env_tmp_dir = [''work'', ''py'', ''tmp''],
      tox_root = [''work''], verbosity = 2,
      run_state = \<lparr>rs_setup = False, rs_clean = False, rs_teardown = False\<rparr>,
      paths_private = [''/a'', ''/b''], env_vars = None, execute_statuses = [],
      interrupted = False, cache = [],
      fs = [[], [''work''], [''work'', ''py''], [''work'', ''py'', ''lib'']],
      os_environ = [(''FOOBAR'', ''1''), (''HOME'', ''/root''), (''PATH'', ''/b:/c'')],
      pathsep = CHR '':'', process_cwd = [''work'']\<rparr>"

text \<open>The same environment with the cleaned flag set and the fingerprint of another class cached.\<close>

definition cleaned_env :: tox_env where
  "cleaned_env =
     example_env\<lparr>run_state := \<lparr>rs_setup = False, rs_clean = True, rs_teardown = False\<rparr>,
                 cache := [(''ToxEnv'', (''py'', ''PackageEnv''))]\<rparr>"

text \<open>The environment with the fingerprint of another class cached and no flag set.\<close>

definition stale_env :: tox_env where
  "stale_env = example_env\<lparr>cache := [(''ToxEnv'', (''py'', ''PackageEnv''))]\<rparr>"

text \<open>The hooks of the base class, every override resolving to \<open>2\<close>, status identity 7.\<close>

definition example_hooks :: hooks where
  "example_hooks = base_hooks (\<lambda>m k. ''2'') (\<lambda>request show s. (Inr 7, s))"

text \<open>An installer that asks for recreation every time.\<close>

definition demanding_hooks :: hooks where
  "demanding_hooks =
     example_hooks\<lparr>hook_setup_with_env := (\<lambda>s. (Some (Recreate ''dependencies changed''), s))\<rparr>"

text \<open>An installer that asks for recreation as long as the old \<open>lib\<close> directory is there.\<close>

definition drift_hooks :: hooks where
  "drift_hooks =
     example_hooks\<lparr>hook_setup_with_env :=
        (\<lambda>s. if path_exists (env_dir s @ [''lib'']) (fs s)
              then (Some (Recreate ''dependencies changed''), s)
              else (None, s))\<rparr>"

text \<open>An installer that fails.\<close>

definition failing_hooks :: hooks where
  "failing_hooks =
     example_hooks\<lparr>hook_setup_with_env := (\<lambda>s. (Some (Failure ''install failed''), s))\<rparr>"


text \<open>
  The example of the specification for the precedence of the overrides: the pattern
  \<open>FOO*\<close>, the process environment \<open>FOOBAR=1\<close> and the override \<open>FOOBAR=2\<close>.
\<close>

definition precedence_env :: tox_env where
  "precedence_env =
     example_env\<lparr>conf_pass_env := [''FOO*''], conf_set_env := [''FOOBAR''],
                 os_environ := [(''FOOBAR'', ''1'')]\<rparr>"

text \<open>An environment that passes \<open>H*M\<close>: the name \<open>HOME\<close> has the match \<open>HOM\<close> at its start.\<close>

definition glob_env :: tox_env where
  "glob_env = example_env\<lparr>conf_pass_env := [''H*M'', ''LANG''], conf_set_env := []\<rparr>"

subsection \<open>Sequences of calls\<close>

text \<open>
  The calls a user of the object can make, and the state each leaves behind, whether it
  returned or raised.
\<close>

datatype operation =
    OpSetup bool
  | OpTeardown
  | OpClean bool
  | OpSetPaths "string list"
  | OpEnvironmentVariables
  | OpInterrupt
  | OpExecuteAsync "string list" stdin_source "bool option" "path option" string

fun perform :: "hooks \<Rightarrow> operation \<Rightarrow> tox_env \<Rightarrow> tox_env" where
  "perform h (OpSetup recreate) s = fst (snd (toxenv_setup h recreate s))"
| "perform h OpTeardown s = fst (snd (teardown h s))"
| "perform h (OpClean force) s = fst (snd (clean force s))"
| "perform h (OpSetPaths v) s = set_paths v s"
| "perform h OpEnvironmentVariables s = snd (environment_variables h s)"
| "perform h OpInterrupt s = fst (snd (interrupt s))"
| "perform h (OpExecuteAsync cmd stdin show cwd run_id) s =
     fst (snd (execute_async h cmd stdin show cwd run_id None s))"

definition perform_all :: "hooks \<Rightarrow> operation list \<Rightarrow> tox_env \<Rightarrow> tox_env" where
  "perform_all h ops s = fold (perform h) ops s"

text \<open>A notion for the proofs: an action that never clears the interrupted flag.\<close>

definition keeps_interrupted :: "action \<Rightarrow> bool" where
  "keeps_interrupted a = (\<forall>s. interrupted s \<longrightarrow> interrupted (fst (snd (a s))))"

section \<open>Lemmas\<close>

subsection \<open>First-occurrence de-duplication and dictionaries\<close>

lemma set_dedup_first: "set (dedup_first xs) = set xs"
  by (induction xs rule: dedup_first.induct) auto

lemma distinct_dedup_first: "distinct (dedup_first xs)"
  by (induction xs rule: dedup_first.induct) (auto simp: set_dedup_first)

lemma filter_dedup_first: "filter P (dedup_first xs) = dedup_first (filter P xs)"
proof (induction xs rule: dedup_first.induct)
  case 1
  then show ?case by simp
next
  case (2 x xs)
  have comm: "filter P (filter (\<lambda>y. y \<noteq> x) xs) = filter (\<lambda>y. y \<noteq> x) (filter P xs)"
    by (simp add: conj_commute)
  show ?case
  proof (cases "P x")
    case True
    with 2 comm show ?thesis by simp
  next
    case False
    then have "filter (\<lambda>y. y \<noteq> x) (filter P xs) = filter P xs"
      by (induction xs) auto
    with 2 comm False show ?thesis by simp
  qed
qed

lemma dedup_first_append:
  "dedup_first (xs @ ys) = dedup_first xs @ dedup_first (filter (\<lambda>y. y \<notin> set xs) ys)"
proof (induction xs arbitrary: ys rule: dedup_first.induct)
  case 1
  then show ?case by simp
next
  case (2 x xs)
  have "filter (\<lambda>y. y \<notin> set (filter (\<lambda>y. y \<noteq> x) xs)) (filter (\<lambda>y. y \<noteq> x) ys)
        = filter (\<lambda>y. y \<notin> set (x # xs)) ys"
    by (induction ys) auto
  with 2 show ?case by simp
qed

lemma dedup_first_distinct: "distinct xs \<Longrightarrow> dedup_first xs = xs"
  by (induction xs rule: dedup_first.induct) (auto simp: filter_id_conv)

lemma keys_fold_update:
  "map fst (fold (\<lambda>k d. AList.update k (f d k) d) ks d)
   = map fst d @ dedup_first (filter (\<lambda>k. k \<notin> set (map fst d)) ks)"
proof (induction ks arbitrary: d)
  case Nil
  then show ?case by simp
next
  case (Cons k ks)
  show ?case
  proof (cases "k \<in> set (map fst d)")
    case True
    then show ?thesis using Cons [of "AList.update k (f d k) d"]
      by (simp add: update_keys)
  next
    case False
    have "filter (\<lambda>y. y \<noteq> k \<and> y \<notin> fst ` set d) ks
          = filter (\<lambda>y. y \<noteq> k) (filter (\<lambda>y. y \<notin> fst ` set d) ks)"
      by (simp add: conj_commute)
    with False show ?thesis using Cons [of "AList.update k (f d k) d"]
      by (simp add: update_keys)
  qed
qed

lemma keys_dict_fromkeys: "map fst (dict_fromkeys ks) = dedup_first ks"
  using keys_fold_update [of "\<lambda>_ _. ()" ks "[]"] by (simp add: dict_fromkeys_def)

lemma dict_update_fromkeys:
  "dict_update d (dict_fromkeys ks) = fold (\<lambda>k r. AList.update k () r) (map fst (dict_fromkeys ks)) d"
proof -
  have "fold (\<lambda>(k, v) r. AList.update k v r) other e = fold (\<lambda>k r. AList.update k () r) (map fst other) e"
    for other :: "('a \<times> unit) list" and e
    by (induction other arbitrary: e) auto
  then show ?thesis by (simp add: dict_update_def)
qed

lemma make_path_of_dedup:
  "make_path_of sep paths environ =
     join sep (dedup_first (paths @ split_sep sep (dict_get environ ''PATH'' [])))"
proof -
  have "map fst (dict_update (dict_fromkeys paths) (dict_fromkeys ys)) = dedup_first (paths @ ys)"
    for ys :: "string list"
    using keys_fold_update [of "\<lambda>_ _. ()" "dedup_first ys" "dict_fromkeys paths"]
    by (simp add: dict_update_fromkeys keys_dict_fromkeys dedup_first_append set_dedup_first
        filter_dedup_first dedup_first_distinct distinct_dedup_first)
  then show ?thesis by (simp add: make_path_of_def Let_def)
qed

subsection \<open>Sequencing and the methods of the lifecycle\<close>

lemma seq_None: "a s = (None, s1, t1) \<Longrightarrow> seq a b s = (case b s1 of (r, s2, t2) \<Rightarrow> (r, s2, t1 @ t2))"
  by (simp add: seq_def)

lemma seq_Some: "a s = (Some e, s1, t1) \<Longrightarrow> seq a b s = (Some e, s1, t1)"
  by (simp add: seq_def)

lemma seq_pass_left: "seq pass b s = b s"
  by (simp add: seq_def pass_def split: prod.splits)

lemma seq_emit: "seq (emit ev) b s = (case b s of (r, s2, t2) \<Rightarrow> (r, s2, ev # t2))"
  by (simp add: seq_def emit_def)

lemma seq_modify: "seq (modify f) b s = b (f s)"
  by (simp add: seq_def modify_def split: prod.splits)

lemma seq_assoc: "seq (seq a b) c = seq a (seq b c)"
  by (rule ext) (simp add: seq_def split: prod.splits option.splits)

lemma seq_pass_right: "seq a pass = a"
  by (rule ext) (simp add: seq_def pass_def split: prod.splits option.splits)

lemma seq_raise: "seq (raise e) b s = (Some e, s, [])"
  by (simp add: seq_def raise_def)

lemma clean_noop: "rs_clean (run_state s) \<Longrightarrow> clean force s = (None, s, [Call (Clean force)])"
  by (simp add: clean_def seq_emit pass_def)

lemma clean_run:
  "\<not> rs_clean (run_state s) \<Longrightarrow> clean force s =
     (None,
      s\<lparr>fs := (if path_exists (env_dir s) (fs s) then rmtree (env_dir s) (fs s) else fs s),
        cache := [],
        run_state := (run_state s)\<lparr>rs_setup := False, rs_clean := True\<rparr>\<rparr>,
      Call (Clean force) #
        (if path_exists (env_dir s) (fs s)
         then [LogWarning (''remove tox env folder '' @ show_path (env_dir s)), RmTree (env_dir s)]
         else []) @ [CacheReset])"
  by (simp add: clean_def seq_assoc seq_pass_right seq_emit seq_modify seq_pass_left Let_def update_run_state_def info_reset_def modify_def)

lemma platform_check_frame: "platform_check s = (r, s', t) \<Longrightarrow> s' = s \<and> t = []"
  by (auto simp: platform_check_def Let_def raise_def pass_def split: option.splits if_splits)


lemma handle_env_tmp_dir_eq:
  "handle_env_tmp_dir s =
     (None,
      s\<lparr>fs := mkdir_parents (env_tmp_dir s)
              (if path_exists (env_tmp_dir s) (fs s) \<and> has_entry (env_tmp_dir s) (fs s)
               then rmtree (env_tmp_dir s) (fs s) else fs s)\<rparr>,
      (if path_exists (env_tmp_dir s) (fs s) \<and> has_entry (env_tmp_dir s) (fs s)
       then [LogDebug (''clear env temp folder '' @ show_path (env_tmp_dir s)), RmTree (env_tmp_dir s)]
       else []) @ [Mkdir (env_tmp_dir s)])"
  by (simp add: handle_env_tmp_dir_def seq_assoc seq_pass_right seq_emit seq_modify seq_pass_left Let_def modify_def)

lemma setup_env_first_run:
  "map_of (cache s) ''ToxEnv'' = None \<Longrightarrow>
   setup_env s =
     (case handle_env_tmp_dir (s\<lparr>cache := AList.update ''ToxEnv'' (conf_name s, class_name s) (cache s)\<rparr>) of
        (r, s', t) \<Rightarrow> (r, s', Call SetupEnv # t))"
  by (simp add: setup_env_def seq_emit seq_modify seq_pass_left info_compare_def Let_def)

lemma setup_env_same:
  "map_of (cache s) ''ToxEnv'' = Some (conf_name s, class_name s) \<Longrightarrow>
   setup_env s = (case handle_env_tmp_dir s of (r, s', t) \<Rightarrow> (r, s', Call SetupEnv # t))"
  by (simp add: setup_env_def seq_emit seq_modify seq_pass_left info_compare_def Let_def)

lemma setup_env_changed:
  "map_of (cache s) ''ToxEnv'' = Some old \<Longrightarrow> old \<noteq> (conf_name s, class_name s) \<Longrightarrow>
   setup_env s =
     (Some (Recreate (''env type changed from '' @ repr_conf old @ '' to '' @ repr_conf (conf_name s, class_name s))),
      s, [Call SetupEnv])"
  by (simp add: setup_env_def seq_emit seq_modify seq_pass_left info_compare_def Let_def seq_raise)

lemma toxenv_setup_done: "rs_setup (run_state s) \<Longrightarrow> toxenv_setup h recreate s = (None, s, [])"
  by (simp add: toxenv_setup_def pass_def)

lemma clean_None: "fst (clean force s) = None"
  by (cases "rs_clean (run_state s)") (simp_all add: clean_noop clean_run)

lemma toxenv_setup_unfold:
  assumes "rs_setup (run_state s) = False" "platform_check s = (None, s, [])"
    and "before_try recreate s = (s0, t0)" and "eff = (recreate \<or> conf_recreate s)"
  shows "toxenv_setup h recreate s =
     (case try_finally
              (try_except_else (provision h)
                 (\<lambda>exception. case exception of
                      Recreate reason \<Rightarrow>
                        Some (if \<not> eff
                              then seqs [emit (LogWarning (''recreate env because '' @ reason)),
                                         clean True, setup_env, setup_with_env h]
                              else pass)
                    | _ \<Rightarrow> None)
                 (done_with_setup h))
              (modify mark_setup_done) s0 of
        (r, s', t) \<Rightarrow> (r, s', t0 @ t))"
proof (cases eff)
  case True
  then have rc: "recreate \<or> conf_recreate s" using assms(4) by simp
  obtain r where c: "clean False s = (r, s0, t0)"
    using assms(3) rc by (cases "clean False s") (simp add: before_try_def)
  with clean_None [of False s] have c': "clean False s = (None, s0, t0)" by simp
  from rc have eq: "(\<not> recreate \<and> \<not> conf_recreate s) = False" by simp
  show ?thesis using assms(1,2) True c' rc
    by (simp add: toxenv_setup_def seq_None provision_def update_run_state_def
        mark_setup_done_def [abs_def] eq cong: exn.case_cong)
next
  case False
  then have rc: "\<not> recreate" "\<not> conf_recreate s" using assms(4) by simp_all
  with assms(3) have "s0 = s" "t0 = []" by (simp_all add: before_try_def)
  then show ?thesis using assms(1,2) False rc
    by (simp add: toxenv_setup_def seq_None seq_pass_left provision_def update_run_state_def
        mark_setup_done_def [abs_def] cong: exn.case_cong)
qed


lemma try_finally_modify:
  "try_finally a (modify f) s = (case a s of (r, s1, t1) \<Rightarrow> (r, f s1, t1))"
  by (simp add: try_finally_def modify_def split: prod.splits)

lemma toxenv_setup_shape:
  assumes "rs_setup (run_state s) = False" "platform_check s = (None, s, [])"
  shows "\<exists>s1. fst (snd (toxenv_setup h recreate s)) = mark_setup_done s1"
proof -
  obtain s0 t0 where b: "before_try recreate s = (s0, t0)" by (cases "before_try recreate s")
  show ?thesis
    unfolding toxenv_setup_unfold [OF assms b refl] try_finally_modify
    by (auto split: prod.splits)
qed

lemma toxenv_setup_ok:
  assumes "rs_setup (run_state s) = False" "platform_check s = (None, s, [])"
    and "before_try recreate s = (s0, t0)"
    and "provision h s0 = (None, s1, t1)"
  shows "toxenv_setup h recreate s =
     (fst (hook_done_with_setup h s1), mark_setup_done (snd (hook_done_with_setup h s1)),
      t0 @ t1 @ [Call DoneWithSetup])"
  unfolding toxenv_setup_unfold [OF assms(1-3) refl] try_finally_modify
  using assms(4)
  by (simp add: try_except_else_def done_with_setup_def call_hook_def split: prod.splits)

lemma toxenv_setup_other:
  assumes "rs_setup (run_state s) = False" "platform_check s = (None, s, [])"
    and "before_try recreate s = (s0, t0)"
    and "provision h s0 = (Some e, s1, t1)" and "\<forall>m. e \<noteq> Recreate m"
  shows "toxenv_setup h recreate s = (Some e, mark_setup_done s1, t0 @ t1)"
  unfolding toxenv_setup_unfold [OF assms(1-3) refl] try_finally_modify
  using assms(4,5)
  by (cases e) (simp_all add: try_except_else_def)

lemma toxenv_setup_swallow:
  assumes "rs_setup (run_state s) = False" "platform_check s = (None, s, [])"
    and "before_try recreate s = (s0, t0)"
    and "provision h s0 = (Some (Recreate m), s1, t1)" and "recreate \<or> conf_recreate s"
  shows "toxenv_setup h recreate s = (None, mark_setup_done s1, t0 @ t1)"
  unfolding toxenv_setup_unfold [OF assms(1-3) refl] try_finally_modify
  using assms(4,5)
  by (simp add: try_except_else_def pass_def)

lemma toxenv_setup_retry:
  assumes "rs_setup (run_state s) = False" "platform_check s = (None, s, [])"
    and "\<not> recreate" "\<not> conf_recreate s"
    and "provision h s = (Some (Recreate m), s1, t1)"
    and "clean True s1 = (rc, s2, t2)"
    and "provision h s2 = (r3, s3, t3)"
  shows "toxenv_setup h recreate s =
     (r3, mark_setup_done s3, t1 @ LogWarning (''recreate env because '' @ m) # t2 @ t3)"
proof -
  have b: "before_try recreate s = (s, [])" using assms(3,4) by (simp add: before_try_def)
  have c: "clean True s1 = (None, s2, t2)" using clean_None [of True s1] assms(6) by simp
  have p: "seq setup_env (setup_with_env h) s2 = (r3, s3, t3)"
    using assms(7) by (simp add: provision_def)
  show ?thesis
    unfolding toxenv_setup_unfold [OF assms(1,2) b refl] try_finally_modify
    using assms(3,4,5) c p
    by (simp add: try_except_else_def seq_emit seq_None seq_pass_right)
qed

subsection \<open>Calls of one provisioning attempt\<close>

lemma setup_env_cases:
  "(\<exists>m. setup_env s = (Some (Recreate m), s, [Call SetupEnv])) \<or>
   (\<exists>s' t. setup_env s = (None, s', Call SetupEnv # t) \<and> set t \<subseteq> range LogDebug \<union> range RmTree \<union> range Mkdir)"
proof (cases "map_of (cache s) ''ToxEnv''")
  case None
  then show ?thesis
    by (auto simp add: setup_env_first_run handle_env_tmp_dir_eq)
next
  case (Some old)
  show ?thesis
  proof (cases "old = (conf_name s, class_name s)")
    case True
    with Some show ?thesis by (auto simp add: setup_env_same handle_env_tmp_dir_eq)
  next
    case False
    with Some show ?thesis by (simp add: setup_env_changed)
  qed
qed

lemma count_list_0: "x \<notin> set xs \<Longrightarrow> count_list xs x = 0"
  by (induction xs) auto

lemma provision_calls:
  assumes "provision h s = (r, s', t)"
  shows "count_list t (Call SetupEnv) = 1"
    and "(\<forall>m. r \<noteq> Some (Recreate m)) \<Longrightarrow> count_list t (Call SetupWithEnv) = 1"
    and "count_list t (Call SetupWithEnv) \<le> 1"
    and "count_list t (Call (Clean f)) = 0"
proof -
  consider (raised) m where "setup_env s = (Some (Recreate m), s, [Call SetupEnv])"
    | (fine) s1 t1 where "setup_env s = (None, s1, Call SetupEnv # t1)"
        "set t1 \<subseteq> range LogDebug \<union> range RmTree \<union> range Mkdir"
    using setup_env_cases [of s] by blast
  then have "count_list t (Call SetupEnv) = 1 \<and>
     ((\<forall>m. r \<noteq> Some (Recreate m)) \<longrightarrow> count_list t (Call SetupWithEnv) = 1) \<and>
     count_list t (Call SetupWithEnv) \<le> 1 \<and> count_list t (Call (Clean f)) = 0"
  proof cases
    case raised
    with assms show ?thesis by (auto simp: provision_def seq_Some)
  next
    case fine
    from fine(2) have n: "Call SetupEnv \<notin> set t1" "Call SetupWithEnv \<notin> set t1" "Call (Clean f) \<notin> set t1"
      by auto
    from assms fine(1) have "t = Call SetupEnv # t1 @ [Call SetupWithEnv]"
      by (auto simp: provision_def seq_None setup_with_env_def call_hook_def split: prod.splits)
    with n show ?thesis by (simp add: count_list_0)
  qed
  then show "count_list t (Call SetupEnv) = 1"
    and "(\<forall>m. r \<noteq> Some (Recreate m)) \<Longrightarrow> count_list t (Call SetupWithEnv) = 1"
    and "count_list t (Call SetupWithEnv) \<le> 1"
    and "count_list t (Call (Clean f)) = 0" by simp_all
qed

lemma clean_calls:
  assumes "clean force s = (r, s', t)"
  shows "count_list t (Call SetupEnv) = 0" "count_list t (Call SetupWithEnv) = 0"
  using assms by (cases "rs_clean (run_state s)"; auto simp: clean_noop clean_run)+

subsection \<open>The matcher and the language of a pattern\<close>

lemma lang_Star_Nil: "w \<in> lang r \<Longrightarrow> w \<in> lang (Star a # r)"
  by (simp, rule exI [of _ "[]"], simp)

lemma lang_Star_Cons: "atom_matches a c \<Longrightarrow> w \<in> lang (Star a # r) \<Longrightarrow> c # w \<in> lang (Star a # r)"
proof -
  assume a: "atom_matches a c" and "w \<in> lang (Star a # r)"
  then obtain u x where "w = u @ x" "list_all (atom_matches a) u" "x \<in> lang r" by auto
  with a have "c # w = (c # u) @ x \<and> list_all (atom_matches a) (c # u) \<and> x \<in> lang r" by simp
  then show ?thesis unfolding lang.simps by blast
qed

lemma lang_Star_cases:
  assumes "w \<in> lang (Star a # r)"
  shows "w \<in> lang r \<or> (\<exists>c w'. w = c # w' \<and> atom_matches a c \<and> w' \<in> lang (Star a # r))"
proof -
  from assms obtain u x where w: "w = u @ x" "list_all (atom_matches a) u" "x \<in> lang r" by auto
  show ?thesis
  proof (cases u)
    case Nil
    with w show ?thesis by simp
  next
    case (Cons c u')
    with w have "w = c # (u' @ x)" "atom_matches a c" "list_all (atom_matches a) u'" by simp_all
    moreover from this w(3) have "u' @ x \<in> lang (Star a # r)" unfolding lang.simps by blast
    ultimately show ?thesis by blast
  qed
qed

lemma matches_lang:
  "matches full r s \<longleftrightarrow> (\<exists>u v. s = u @ v \<and> u \<in> lang r \<and> (full \<longrightarrow> v = []))"
proof (induction full r s rule: matches.induct)
  case (1 full s)
  then show ?case by auto
next
  case (2 full a r)
  then show ?case by auto
next
  case (3 full a r c s)
  then show ?case by (auto simp: Cons_eq_append_conv)
next
  case (4 full a r)
  then show ?case by auto
next
  case (5 full a r c s)
  show ?case
  proof
    assume m: "matches full (Star a # r) (c # s)"
    show "\<exists>u v. c # s = u @ v \<and> u \<in> lang (Star a # r) \<and> (full \<longrightarrow> v = [])"
    proof (cases "atom_matches a c \<and> matches full (Star a # r) s")
      case True
      with 5(1) obtain u v where "s = u @ v" "u \<in> lang (Star a # r)" "full \<longrightarrow> v = []" by blast
      with True have "c # s = (c # u) @ v \<and> c # u \<in> lang (Star a # r) \<and> (full \<longrightarrow> v = [])"
        using lang_Star_Cons by simp
      then show ?thesis by blast
    next
      case False
      with m have "matches full r (c # s)" by auto
      with 5(2) False obtain u v where "c # s = u @ v" "u \<in> lang r" "full \<longrightarrow> v = []" by blast
      then show ?thesis using lang_Star_Nil by blast
    qed
  next
    assume "\<exists>u v. c # s = u @ v \<and> u \<in> lang (Star a # r) \<and> (full \<longrightarrow> v = [])"
    then obtain u v where uv: "c # s = u @ v" "u \<in> lang (Star a # r)" "full \<longrightarrow> v = []" by blast
    show "matches full (Star a # r) (c # s)"
    proof (cases "atom_matches a c \<and> matches full (Star a # r) s")
      case True
      then show ?thesis by simp
    next
      case False
      from lang_Star_cases [OF uv(2)] show ?thesis
      proof
        assume "u \<in> lang r"
        with uv 5(2) False have "matches full r (c # s)" by blast
        with False show ?thesis by simp
      next
        assume "\<exists>c' w'. u = c' # w' \<and> atom_matches a c' \<and> w' \<in> lang (Star a # r)"
        then obtain c' w' where u: "u = c' # w'" "atom_matches a c'" "w' \<in> lang (Star a # r)" by blast
        with uv have "c' = c" "s = w' @ v" by simp_all
        with u uv(3) 5(1) have "atom_matches a c \<and> matches full (Star a # r) s" by blast
        with False show ?thesis by simp
      qed
    qed
  qed
qed

lemma re_match_prefix: "re_match g n \<longleftrightarrow> (\<exists>u. prefix u n \<and> u \<in> lang g)"
  using matches_lang [of False g n] by (auto simp: re_match_def prefix_def)

lemma re_fullmatch_lang: "re_fullmatch g n \<longleftrightarrow> n \<in> lang g"
  using matches_lang [of True g n] by (auto simp: re_fullmatch_def)


lemma star_any_match: "CHR 0x0A \<notin> set mid \<Longrightarrow> matches full r s \<Longrightarrow> matches full (Star AnyChar # r) (mid @ s)"
proof (induction mid)
  case Nil
  then show ?case by (cases s) auto
next
  case (Cons c mid)
  then show ?case by auto
qed

lemma glob_example:
  "re_compile (replace_star ''A*B'') = Some [One (Lit (CHR ''A'')), Star AnyChar, One (Lit (CHR ''B''))]"
  "CHR 0x0A \<notin> set mid \<Longrightarrow> re_match [One (Lit (CHR ''A'')), Star AnyChar, One (Lit (CHR ''B''))] (''A'' @ mid @ ''B'' @ rest)"
proof -
  show "re_compile (replace_star ''A*B'') = Some [One (Lit (CHR ''A'')), Star AnyChar, One (Lit (CHR ''B''))]"
    by (simp add: replace_star_def re_special_def atom_of_def)
  assume "CHR 0x0A \<notin> set mid"
  then show "re_match [One (Lit (CHR ''A'')), Star AnyChar, One (Lit (CHR ''B''))] (''A'' @ mid @ ''B'' @ rest)"
    using star_any_match [of mid False "[One (Lit (CHR ''B''))]" "''B'' @ rest"]
    by (simp add: re_match_def)
qed

subsection \<open>The loops of the environment variables\<close>


lemma fold_cond:
  "fold (\<lambda>x r. if P x then g x r else r) xs r = fold g (filter P xs) r"
  by (induction xs arbitrary: r) auto

lemma map_of_pass_literal:
  "map_of (pass_literal environ lits r) k =
     (if k \<in> set lits \<and> map_of environ k \<noteq> None then map_of environ k else map_of r k)"
  unfolding pass_literal_def
  by (induction lits arbitrary: r) (auto simp: update_conv' split: option.splits)

lemma map_of_fold_glob:
  "distinct (map fst environ) \<Longrightarrow>
   map_of (fold (\<lambda>(env, value) result. if P env then AList.update env value result else result) environ r) k =
     (if P k \<and> k \<in> fst ` set environ then map_of environ k else map_of r k)"
proof (induction environ arbitrary: r)
  case Nil
  then show ?case by simp
next
  case (Cons e environ)
  obtain n v where e: "e = (n, v)" by (cases e)
  from Cons.prems have d: "distinct (map fst environ)" and n: "n \<notin> fst ` set environ"
    by (simp_all add: e)
  show ?case
    using Cons.IH [OF d] n by (auto simp: e update_conv')
qed

lemma map_of_pass_glob:
  "distinct (map fst environ) \<Longrightarrow>
   map_of (pass_glob environ globs r) k =
     (if list_ex (\<lambda>g. re_match g k) globs \<and> k \<in> fst ` set environ then map_of environ k else map_of r k)"
  by (cases "globs = []") (simp_all add: pass_glob_def map_of_fold_glob)

lemma map_of_apply_set_env_other:
  "k \<notin> set keys \<Longrightarrow> map_of (apply_set_env load keys r) k = map_of r k"
  unfolding apply_set_env_def
  by (induction keys arbitrary: r) (auto simp: update_conv')

lemma map_of_apply_set_env_key:
  "k \<in> set keys \<Longrightarrow> \<exists>m. map_of (apply_set_env load keys r) k = Some (load m k)"
  unfolding apply_set_env_def
proof (induction keys arbitrary: r)
  case Nil
  then show ?case by simp
next
  case (Cons a keys)
  show ?case
  proof (cases "k \<in> set keys")
    case True
    with Cons.IH show ?thesis by simp
  next
    case False
    with Cons.prems have "a = k" by simp
    with False map_of_apply_set_env_other [of k keys load "AList.update k (load r k) r"]
    show ?thesis by (auto simp: apply_set_env_def update_conv')
  qed
qed

lemma keys_pass_literal:
  "map fst (pass_literal environ lits r) =
     map fst r @ dedup_first (filter (\<lambda>k. k \<notin> set (map fst r)) (filter (\<lambda>e. map_of environ e \<noteq> None) lits))"
proof -
  have "pass_literal environ lits r =
        fold (\<lambda>k d. AList.update k (the (map_of environ k)) d) (filter (\<lambda>e. map_of environ e \<noteq> None) lits) r"
    unfolding pass_literal_def
    by (induction lits arbitrary: r) (auto split: option.splits)
  then show ?thesis
    using keys_fold_update [of "\<lambda>d k. the (map_of environ k)"] by simp
qed

lemma keys_fold_pairs:
  "map fst (fold (\<lambda>(k, v) d. AList.update k v d) kvs d)
   = map fst d @ dedup_first (filter (\<lambda>k. k \<notin> set (map fst d)) (map fst kvs))"
proof (induction kvs arbitrary: d)
  case Nil
  then show ?case by simp
next
  case (Cons kv kvs)
  obtain k v where kv: "kv = (k, v)" by (cases kv)
  show ?case
  proof (cases "k \<in> set (map fst d)")
    case True
    then show ?thesis using Cons [of "AList.update k v d"]
      by (simp add: kv update_keys)
  next
    case False
    have "filter (\<lambda>y. y \<noteq> k \<and> y \<notin> fst ` set d) (map fst kvs)
          = filter (\<lambda>y. y \<noteq> k) (filter (\<lambda>y. y \<notin> fst ` set d) (map fst kvs))"
      by (simp add: conj_commute)
    with False show ?thesis using Cons [of "AList.update k v d"]
      by (simp add: kv update_keys)
  qed
qed

lemma keys_pass_glob:
  "map fst (pass_glob environ globs r) =
     map fst r @ dedup_first (filter (\<lambda>k. k \<notin> set (map fst r))
        (map fst (filter (\<lambda>(env, value). list_ex (\<lambda>g. re_match g env) globs) environ)))"
proof (cases "globs = []")
  case True
  then show ?thesis by (simp add: pass_glob_def)
next
  case False
  have "fold (\<lambda>(env, value) result. if list_ex (\<lambda>g. re_match g env) globs
                 then AList.update env value result else result) environ r
        = fold (\<lambda>(k, v) d. AList.update k v d)
            (filter (\<lambda>(env, value). list_ex (\<lambda>g. re_match g env) globs) environ) r"
    by (induction environ arbitrary: r) auto
  with False show ?thesis
    by (simp add: pass_glob_def keys_fold_pairs)
qed

lemma keys_apply_set_env:
  "map fst (apply_set_env load keys r) =
     map fst r @ dedup_first (filter (\<lambda>k. k \<notin> set (map fst r)) keys)"
  unfolding apply_set_env_def using keys_fold_update [of load keys r] .

subsection \<open>The resolved mapping\<close>

lemmas env_defs = environment_variables_def pass_literal_def pass_glob_def apply_set_env_def
  make_path_def make_path_of_def dict_fromkeys_def dict_update_def dict_get_def replace_star_def
  has_star_def re_special_def atom_of_def re_match_def Let_def precedence_env_def

lemma environment_variables_fresh:
  assumes "env_vars s = None"
    and "compile_all (map replace_star (filter has_star (conf_pass_env s))) = Inr globs"
  shows "environment_variables h s =
     (Inr (apply_set_env (set_env_load h) (conf_set_env s)
            (AList.update ''PATH'' (make_path s)
              (pass_glob (os_environ s) globs
                (pass_literal (os_environ s) (filter (\<lambda>e. \<not> has_star e) (conf_pass_env s)) [])))),
      s\<lparr>env_vars := Some (apply_set_env (set_env_load h) (conf_set_env s)
            (AList.update ''PATH'' (make_path s)
              (pass_glob (os_environ s) globs
                (pass_literal (os_environ s) (filter (\<lambda>e. \<not> has_star e) (conf_pass_env s)) []))))\<rparr>)"
  using assms by (simp add: environment_variables_def Let_def)

lemma environment_variables_cached:
  "env_vars s = Some m \<Longrightarrow> environment_variables h s = (Inr m, s)"
  by (simp add: environment_variables_def)

lemma environment_variables_resolved:
  assumes "env_vars s = None"
    and "compile_all (map replace_star (filter has_star (conf_pass_env s))) = Inr globs"
    and "distinct (map fst (os_environ s))"
  shows "\<exists>result.
     environment_variables h s = (Inr result, s\<lparr>env_vars := Some result\<rparr>)
     \<and> map fst result =
         dedup_first
           (filter (\<lambda>e. map_of (os_environ s) e \<noteq> None) (filter (\<lambda>e. \<not> has_star e) (conf_pass_env s))
            @ map fst (filter (\<lambda>(env, value). list_ex (\<lambda>g. re_match g env) globs) (os_environ s))
            @ [''PATH''] @ conf_set_env s)
     \<and> (\<forall>k \<in> set (conf_set_env s). \<exists>m. map_of result k = Some (set_env_load h m k))
     \<and> (''PATH'' \<notin> set (conf_set_env s) \<longrightarrow> map_of result ''PATH'' = Some (make_path s))
     \<and> (\<forall>k. k \<notin> set (conf_set_env s) \<and> k \<noteq> ''PATH'' \<longrightarrow>
          map_of result k =
            (if (k \<in> set (conf_pass_env s) \<and> \<not> has_star k) \<or> list_ex (\<lambda>g. re_match g k) globs
             then map_of (os_environ s) k else None))"
proof -
  let ?l = "pass_literal (os_environ s) (filter (\<lambda>e. \<not> has_star e) (conf_pass_env s)) []"
  let ?g = "pass_glob (os_environ s) globs ?l"
  let ?p = "AList.update ''PATH'' (make_path s) ?g"
  let ?r = "apply_set_env (set_env_load h) (conf_set_env s) ?p"
  let ?L = "filter (\<lambda>e. map_of (os_environ s) e \<noteq> None) (filter (\<lambda>e. \<not> has_star e) (conf_pass_env s))"
  let ?G = "map fst (filter (\<lambda>(env, value). list_ex (\<lambda>g. re_match g env) globs) (os_environ s))"
  have e: "environment_variables h s = (Inr ?r, s\<lparr>env_vars := Some ?r\<rparr>)"
    by (rule environment_variables_fresh [OF assms(1,2)])
  have kl: "map fst ?l = dedup_first ?L"
    by (simp add: keys_pass_literal)
  have kg: "map fst ?g = dedup_first (?L @ ?G)"
    by (simp add: keys_pass_glob kl dedup_first_append set_dedup_first)
  have "map fst ?p = map fst ?g @ dedup_first (filter (\<lambda>k. k \<notin> set (map fst ?g)) [''PATH''])"
    by (simp add: update_keys)
  then have kp: "map fst ?p = dedup_first ((?L @ ?G) @ [''PATH''])"
    unfolding kg by (simp only: dedup_first_append [of "?L @ ?G"] set_dedup_first)
  have "map fst ?r = map fst ?p @ dedup_first (filter (\<lambda>k. k \<notin> set (map fst ?p)) (conf_set_env s))"
    by (rule keys_apply_set_env)
  then have kr: "map fst ?r = dedup_first (((?L @ ?G) @ [''PATH'']) @ conf_set_env s)"
    unfolding kp by (simp only: dedup_first_append [of "(?L @ ?G) @ [''PATH'']"] set_dedup_first)
  have ks: "\<forall>k \<in> set (conf_set_env s). \<exists>m. map_of ?r k = Some (set_env_load h m k)"
    using map_of_apply_set_env_key by fast
  have kP: "''PATH'' \<notin> set (conf_set_env s) \<longrightarrow> map_of ?r ''PATH'' = Some (make_path s)"
    by (simp add: map_of_apply_set_env_other update_conv')
  have ko: "\<forall>k. k \<notin> set (conf_set_env s) \<and> k \<noteq> ''PATH'' \<longrightarrow>
          map_of ?r k =
            (if (k \<in> set (conf_pass_env s) \<and> \<not> has_star k) \<or> list_ex (\<lambda>g. re_match g k) globs
             then map_of (os_environ s) k else None)"
  proof -
    have n: "None = map_of (os_environ s) k" if "k \<notin> fst ` set (os_environ s)" for k
      using that by (metis map_of_eq_None_iff)
    show ?thesis
      using assms(3)
      by (auto simp add: map_of_apply_set_env_other update_conv' map_of_pass_glob map_of_pass_literal
          map_of_eq_None_iff intro: n)
  qed
  show ?thesis
    using e kr ks kP ko by (intro exI [of _ ?r]) simp
qed


lemma compile_all_set:
  "compile_all es = Inr gs \<Longrightarrow> set gs = {g. \<exists>e \<in> set es. re_compile e = Some g}"
proof (induction es arbitrary: gs)
  case Nil
  then show ?case by simp
next
  case (Cons e es)
  then obtain g gs' where g: "re_compile e = Some g" "compile_all es = Inr gs'" "gs = g # gs'"
    by (auto split: option.splits sum.splits)
  with Cons.IH [of gs'] show ?case by auto
qed

lemma glob_match_iff:
  assumes "compile_all (map replace_star (filter has_star ps)) = Inr globs"
  shows "list_ex (\<lambda>g. re_match g n) globs \<longleftrightarrow>
         (\<exists>p \<in> set ps. has_star p \<and> (\<exists>g. re_compile (replace_star p) = Some g \<and> (\<exists>u. prefix u n \<and> u \<in> lang g)))"
  using compile_all_set [OF assms]
  by (auto simp add: list_ex_iff re_match_prefix)

subsection \<open>The interrupted flag is never cleared\<close>

lemma keeps_pass: "keeps_interrupted pass"
  by (simp add: keeps_interrupted_def pass_def)

lemma keeps_emit: "keeps_interrupted (emit ev)"
  by (simp add: keeps_interrupted_def emit_def)

lemma keeps_modify: "(\<And>s. interrupted s \<Longrightarrow> interrupted (f s)) \<Longrightarrow> keeps_interrupted (modify f)"
  by (simp add: keeps_interrupted_def modify_def)

lemma keeps_seq: "keeps_interrupted a \<Longrightarrow> keeps_interrupted b \<Longrightarrow> keeps_interrupted (seq a b)"
  unfolding keeps_interrupted_def seq_def
  by (auto split: prod.splits option.splits)

lemma keeps_call_hook:
  "(\<And>s. interrupted s \<Longrightarrow> interrupted (snd (f s))) \<Longrightarrow> keeps_interrupted (call_hook m f)"
  unfolding keeps_interrupted_def call_hook_def
  by (auto split: prod.splits) (metis snd_conv)

lemma keeps_try_finally:
  "keeps_interrupted a \<Longrightarrow> keeps_interrupted f \<Longrightarrow> keeps_interrupted (try_finally a f)"
  unfolding keeps_interrupted_def try_finally_def
  by (auto split: prod.splits option.splits)

lemma keeps_try_except_else:
  assumes "keeps_interrupted body" "\<And>e a. handler e = Some a \<Longrightarrow> keeps_interrupted a"
    "keeps_interrupted orelse"
  shows "keeps_interrupted (try_except_else body handler orelse)"
  unfolding keeps_interrupted_def
proof (intro allI impI)
  fix s :: tox_env assume i: "interrupted s"
  obtain r s1 t1 where b: "body s = (r, s1, t1)" by (cases "body s") auto
  with assms(1) i have i1: "interrupted s1" unfolding keeps_interrupted_def by (metis fst_conv snd_conv)
  show "interrupted (fst (snd (try_except_else body handler orelse s)))"
  proof (cases r)
    case None
    with b i1 assms(3) show ?thesis
      unfolding keeps_interrupted_def try_except_else_def by (auto split: prod.splits)
  next
    case (Some e)
    show ?thesis
    proof (cases "handler e")
      case None
      with Some b i1 show ?thesis by (simp add: try_except_else_def)
    next
      case (Some a)
      with assms(2) have "keeps_interrupted a" by blast
      with \<open>r = Some e\<close> Some b i1 show ?thesis
        unfolding keeps_interrupted_def try_except_else_def by (auto split: prod.splits)
    qed
  qed
qed

lemma keeps_clean: "keeps_interrupted (clean force)"
  unfolding keeps_interrupted_def
proof (intro allI impI)
  fix s :: tox_env assume "interrupted s"
  then show "interrupted (fst (snd (clean force s)))"
    by (cases "rs_clean (run_state s)") (simp_all add: clean_noop clean_run)
qed

lemma keeps_setup_env: "keeps_interrupted setup_env"
  unfolding keeps_interrupted_def
proof (intro allI impI)
  fix s :: tox_env assume i: "interrupted s"
  show "interrupted (fst (snd (setup_env s)))"
  proof (cases "map_of (cache s) ''ToxEnv''")
    case None
    with i show ?thesis by (simp add: setup_env_first_run handle_env_tmp_dir_eq)
  next
    case (Some old)
    with i show ?thesis
      by (cases "old = (conf_name s, class_name s)")
         (simp_all add: setup_env_same setup_env_changed handle_env_tmp_dir_eq)
  qed
qed

lemma keeps_toxenv_setup:
  assumes "\<And>s. interrupted s \<Longrightarrow> interrupted (snd (hook_setup_with_env h s))"
    and "\<And>s. interrupted s \<Longrightarrow> interrupted (snd (hook_done_with_setup h s))"
  shows "keeps_interrupted (toxenv_setup h recreate)"
proof -
  have swe: "keeps_interrupted (setup_with_env h)"
    unfolding setup_with_env_def by (rule keeps_call_hook) (rule assms(1))
  have dws: "keeps_interrupted (done_with_setup h)"
    unfolding done_with_setup_def by (rule keeps_call_hook) (rule assms(2))
  have prov: "keeps_interrupted (provision h)"
    unfolding provision_def by (intro keeps_seq keeps_setup_env swe)
  have tried: "keeps_interrupted
      (try_finally
         (try_except_else (provision h)
            (\<lambda>exception. case exception of
                 Recreate reason \<Rightarrow>
                   Some (if \<not> eff
                         then seqs [emit (LogWarning (''recreate env because '' @ reason)),
                                    clean True, setup_env, setup_with_env h]
                         else pass)
               | _ \<Rightarrow> None)
            (done_with_setup h))
         (modify mark_setup_done))" for eff
  proof (intro keeps_try_finally keeps_try_except_else prov dws keeps_modify)
    fix e a
    assume "(case e of Recreate reason \<Rightarrow>
                   Some (if \<not> eff
                         then seqs [emit (LogWarning (''recreate env because '' @ reason)),
                                    clean True, setup_env, setup_with_env h]
                         else pass)
               | _ \<Rightarrow> None) = Some a"
    then show "keeps_interrupted a"
      by (cases e) (auto intro!: keeps_seq keeps_emit keeps_clean keeps_setup_env swe keeps_pass)
  next
    fix s :: tox_env assume "interrupted s"
    then show "interrupted (mark_setup_done s)" by (simp add: mark_setup_done_def)
  qed
  show ?thesis
    unfolding keeps_interrupted_def
  proof (intro allI impI)
    fix s :: tox_env assume i: "interrupted s"
    show "interrupted (fst (snd (toxenv_setup h recreate s)))"
    proof (cases "rs_setup (run_state s)")
      case True
      with i show ?thesis by (simp add: toxenv_setup_done)
    next
      case False
      show ?thesis
      proof (cases "fst (platform_check s)")
        case None
        then have pc: "platform_check s = (None, s, [])"
          using platform_check_frame [of s] by (metis prod.collapse)
        obtain s0 t0 where b: "before_try recreate s = (s0, t0)" by (cases "before_try recreate s")
        have "interrupted s0"
          using b i keeps_clean [of False] unfolding keeps_interrupted_def before_try_def
          by (auto split: if_splits)
        with tried [of "recreate \<or> conf_recreate s"] show ?thesis
          unfolding toxenv_setup_unfold [OF _ pc b refl, of h, simplified False, simplified]
            keeps_interrupted_def
          by (auto split: prod.splits)
      next
        case (Some e)
        then have pc: "platform_check s = (Some e, s, [])"
          using platform_check_frame [of s] by (metis prod.collapse)
        with False i show ?thesis by (simp add: toxenv_setup_def seq_Some)
      qed
    qed
  qed
qed


lemma keeps_teardown:
  assumes "\<And>s. interrupted s \<Longrightarrow> interrupted (snd (hook_teardown h s))"
  shows "keeps_interrupted (teardown h)"
proof -
  have "keeps_interrupted (try_finally (teardown_hook h) (update_run_state (\<lambda>r. r\<lparr>rs_teardown := True\<rparr>)))"
    unfolding teardown_hook_def update_run_state_def
    by (intro keeps_try_finally keeps_call_hook keeps_modify) (simp_all add: assms)
  then show ?thesis
    unfolding keeps_interrupted_def teardown_def by (simp add: pass_def)
qed

lemma interrupted_environment_variables:
  "interrupted (snd (environment_variables h s)) = interrupted s"
  by (simp add: environment_variables_def Let_def split: option.splits sum.splits)

lemma interrupted_set_paths: "interrupted (set_paths v s) = interrupted s"
  by (simp add: set_paths_def Let_def split: option.splits)

lemma interrupt_eq:
  "interrupt s =
     (None, s\<lparr>interrupted := True\<rparr>,
      LogWarning (''interrupt tox environment: '' @ conf_name s) # map StatusInterrupt (execute_statuses s))"
  by (simp add: interrupt_def seq_def emit_def modify_def pass_def)

lemma execute_async_interrupted:
  "interrupted s \<Longrightarrow>
   execute_async h cmd stdin show cwd run_id executor s = (Inl (SystemExit (- 2)), s, [])"
  by (simp add: execute_async_def)

lemma perform_keeps:
  assumes "\<And>s. interrupted s \<Longrightarrow> interrupted (snd (hook_setup_with_env h s))"
    and "\<And>s. interrupted s \<Longrightarrow> interrupted (snd (hook_done_with_setup h s))"
    and "\<And>s. interrupted s \<Longrightarrow> interrupted (snd (hook_teardown h s))"
    and "interrupted s"
  shows "interrupted (perform h op s)"
proof (cases op)
  case (OpSetup recreate)
  with keeps_toxenv_setup [OF assms(1,2), of recreate] assms(4) show ?thesis
    by (simp add: keeps_interrupted_def)
next
  case OpTeardown
  with keeps_teardown [OF assms(3)] assms(4) show ?thesis
    by (simp add: keeps_interrupted_def)
next
  case (OpClean force)
  with keeps_clean [of force] assms(4) show ?thesis
    by (simp add: keeps_interrupted_def)
next
  case (OpSetPaths v)
  with assms(4) show ?thesis by (simp add: interrupted_set_paths)
next
  case OpEnvironmentVariables
  with assms(4) show ?thesis by (simp add: interrupted_environment_variables)
next
  case OpInterrupt
  then show ?thesis by (simp add: interrupt_eq)
next
  case (OpExecuteAsync cmd stdin sh cwd run_id)
  with assms(4) show ?thesis by (simp add: execute_async_interrupted)
qed

lemma perform_all_keeps:
  assumes "\<And>s. interrupted s \<Longrightarrow> interrupted (snd (hook_setup_with_env h s))"
    and "\<And>s. interrupted s \<Longrightarrow> interrupted (snd (hook_done_with_setup h s))"
    and "\<And>s. interrupted s \<Longrightarrow> interrupted (snd (hook_teardown h s))"
  shows "interrupted s \<Longrightarrow> interrupted (perform_all h ops s)"
  unfolding perform_all_def
proof (induction ops arbitrary: s)
  case Nil
  then show ?case by simp
next
  case (Cons op ops)
  from perform_keeps [OF assms Cons.prems] Cons.IH show ?case by simp
qed

subsection \<open>Evaluation on the examples\<close>

lemmas model_defs = toxenv_setup_def platform_check_def clean_def setup_env_def setup_with_env_def
  done_with_setup_def handle_env_tmp_dir_def provision_def call_hook_def try_finally_def
  try_except_else_def seq_def pass_def raise_def emit_def modify_def update_run_state_def
  info_compare_def info_reset_def path_exists_def has_entry_def rmtree_def mkdir_parents_def
  show_path_def repr_conf_def Let_def mark_setup_done_def before_try_def

lemmas example_defs = example_env_def cleaned_env_def example_hooks_def demanding_hooks_def
  drift_hooks_def failing_hooks_def base_hooks_def

section \<open>The properties of the specification\<close>

subsection \<open>C1: one retry after Recreate\<close>

lemma clean_True_count:
  assumes "clean force s = (r, s', t)"
  shows "count_list t (Call (Clean force)) = 1"
  using assms by (cases "rs_clean (run_state s)"; auto simp: clean_noop clean_run)

text \<open>
  C1 (amended). On an environment whose setup has not completed, with the platform check
  passed and the effective recreate flag (the argument or the configured option) false:
  when the first provisioning attempt raises \<open>Recreate\<close>, \<open>setup\<close> logs a warning, calls
  \<open>_clean(force=True)\<close> once and provisions exactly once more. Whatever that second attempt
  returns or raises is the outcome of \<open>setup\<close>, so a second \<open>Recreate\<close> reaches the caller
  and nothing is tried a third time. On exit \<open>setup\<close> is marked done and \<open>clean\<close> is unset,
  also when the exception goes out.
\<close>

theorem setup_recreate_retry_once:
  assumes "rs_setup (run_state s) = False"
    and "platform_check s = (None, s, [])"
    and "\<not> recreate" and "\<not> conf_recreate s"
    and "provision h s = (Some (Recreate reason), s1, t1)"
    and "clean True s1 = (rc, s2, t2)"
    and "provision h s2 = (r3, s3, t3)"
  shows "toxenv_setup h recreate s =
           (r3, mark_setup_done s3,
            t1 @ LogWarning (''recreate env because '' @ reason) # t2 @ t3)
         \<and> count_list (snd (snd (toxenv_setup h recreate s))) (Call SetupEnv) = 2
         \<and> count_list (snd (snd (toxenv_setup h recreate s))) (Call (Clean True)) = 1
         \<and> rs_setup (run_state (fst (snd (toxenv_setup h recreate s)))) = True
         \<and> rs_clean (run_state (fst (snd (toxenv_setup h recreate s)))) = False"
proof -
  have eq: "toxenv_setup h recreate s =
           (r3, mark_setup_done s3,
            t1 @ LogWarning (''recreate env because '' @ reason) # t2 @ t3)"
    by (rule toxenv_setup_retry [OF assms])
  have "count_list t1 (Call SetupEnv) = 1" "count_list t3 (Call SetupEnv) = 1"
    "count_list t2 (Call SetupEnv) = 0"
    using provision_calls(1) [OF assms(5)] provision_calls(1) [OF assms(7)] clean_calls(1) [OF assms(6)]
    by simp_all
  moreover have "count_list t1 (Call (Clean True)) = 0" "count_list t3 (Call (Clean True)) = 0"
    "count_list t2 (Call (Clean True)) = 1"
    using provision_calls(4) [OF assms(5)] provision_calls(4) [OF assms(7)] clean_True_count [OF assms(6)]
    by simp_all
  ultimately show ?thesis
    unfolding eq by (simp add: mark_setup_done_def)
qed

theorem setup_recreate_retry_once_witness:
  "toxenv_setup demanding_hooks False example_env =
     (Some (Recreate ''dependencies changed''),
      mark_setup_done (fst (snd (provision demanding_hooks
          (fst (snd (clean True (fst (snd (provision demanding_hooks example_env))))))))),
      [Call SetupEnv, Mkdir [''work'', ''py'', ''tmp''], Call SetupWithEnv,
       LogWarning ''recreate env because dependencies changed'',
       Call (Clean True), LogWarning ''remove tox env folder /work/py'',
       RmTree [''work'', ''py''], CacheReset, Call SetupEnv,
       Mkdir [''work'', ''py'', ''tmp''], Call SetupWithEnv])"
proof -
  let ?p1 = "provision demanding_hooks example_env"
  let ?c = "clean True (fst (snd ?p1))"
  let ?p2 = "provision demanding_hooks (fst (snd ?c))"
  have a1: "rs_setup (run_state example_env) = False" by (simp add: example_defs)
  have a2: "platform_check example_env = (None, example_env, [])"
    by (simp add: model_defs example_defs)
  have a3: "\<not> False" by simp
  have a4: "\<not> conf_recreate example_env" by (simp add: example_defs)
  have "fst ?p1 = Some (Recreate ''dependencies changed'')"
    by (simp add: model_defs example_defs)
  then have a5: "?p1 = (Some (Recreate ''dependencies changed''), fst (snd ?p1), snd (snd ?p1))"
    by (metis prod.collapse)
  have a6: "?c = (fst ?c, fst (snd ?c), snd (snd ?c))" by simp
  have a7: "?p2 = (fst ?p2, fst (snd ?p2), snd (snd ?p2))" by simp
  have v: "fst ?p2 = Some (Recreate ''dependencies changed'')"
    "snd (snd ?p1) = [Call SetupEnv, Mkdir [''work'', ''py'', ''tmp''], Call SetupWithEnv]"
    "snd (snd ?c) = [Call (Clean True), LogWarning ''remove tox env folder /work/py'',
       RmTree [''work'', ''py''], CacheReset]"
    "snd (snd ?p2) = [Call SetupEnv, Mkdir [''work'', ''py'', ''tmp''], Call SetupWithEnv]"
    by (simp_all add: model_defs example_defs)
  show ?thesis
    using setup_recreate_retry_once [OF a1 a2 a3 a4 a5 a6 a7] v by simp
qed

text \<open>
  C1 as stated fails twice. With an installer that always asks for recreation both
  attempts raise \<open>Recreate\<close> and the second one reaches the caller, but the environment
  is marked as set up afterwards. And with \<open>recreate=True\<close> the first \<open>Recreate\<close> is caught
  and dropped: no warning, no second attempt, a normal return.
\<close>

theorem setup_recreate_counterexample:
  "rs_setup (run_state example_env) = False
   \<and> fst (platform_check example_env) = None
   \<and> fst (provision demanding_hooks example_env) = Some (Recreate ''dependencies changed'')
   \<and> fst (toxenv_setup demanding_hooks False example_env) = Some (Recreate ''dependencies changed'')
   \<and> rs_setup (run_state (fst (snd (toxenv_setup demanding_hooks False example_env)))) = True
   \<and> fst (toxenv_setup demanding_hooks True example_env) = None
   \<and> snd (snd (toxenv_setup demanding_hooks True example_env)) =
       [Call (Clean False), LogWarning ''remove tox env folder /work/py'',
        RmTree [''work'', ''py''], CacheReset, Call SetupEnv,
        Mkdir [''work'', ''py'', ''tmp''], Call SetupWithEnv]"
  by (simp add: model_defs example_defs)

subsection \<open>C2: a second call\<close>

lemma before_try_calls:
  "count_list (snd (before_try recreate s)) (Call SetupEnv) = 0"
  "count_list (snd (before_try recreate s)) (Call SetupWithEnv) = 0"
  using clean_calls [of False s "fst (clean False s)" "fst (snd (clean False s))" "snd (snd (clean False s))"]
  by (simp_all add: before_try_def)

text \<open>
  C2 (amended). Once \<open>setup_done\<close> is true a \<open>setup\<close> call does nothing, whatever its
  argument: no exception, the same state, no event. After a first call whose platform
  check passed, a second call is such a no-op, so the two calls together invoke the
  provisioning methods as often as the first call alone; that is once each when the first
  provisioning attempt raised no \<open>Recreate\<close>.
\<close>

theorem setup_idempotent:
  "(rs_setup (run_state s) = True \<longrightarrow> toxenv_setup h again s = (None, s, []))
   \<and> (rs_setup (run_state s) = False \<and> platform_check s = (None, s, []) \<longrightarrow>
        toxenv_setup h again (fst (snd (toxenv_setup h recreate s)))
          = (None, fst (snd (toxenv_setup h recreate s)), [])
        \<and> ((\<forall>m. fst (provision h (fst (before_try recreate s))) \<noteq> Some (Recreate m)) \<longrightarrow>
             count_list (snd (snd (toxenv_setup h recreate s))
                         @ snd (snd (toxenv_setup h again (fst (snd (toxenv_setup h recreate s))))))
                        (Call SetupEnv) = 1
             \<and> count_list (snd (snd (toxenv_setup h recreate s))
                         @ snd (snd (toxenv_setup h again (fst (snd (toxenv_setup h recreate s))))))
                        (Call SetupWithEnv) = 1))"
proof (intro conjI impI)
  assume "rs_setup (run_state s) = True"
  then show "toxenv_setup h again s = (None, s, [])" by (simp add: toxenv_setup_done)
next
  assume a: "rs_setup (run_state s) = False \<and> platform_check s = (None, s, [])"
  then have a1: "rs_setup (run_state s) = False" and a2: "platform_check s = (None, s, [])"
    by simp_all
  obtain sx where "fst (snd (toxenv_setup h recreate s)) = mark_setup_done sx"
    using toxenv_setup_shape [OF a1 a2] by blast
  then have "rs_setup (run_state (fst (snd (toxenv_setup h recreate s))))"
    by (simp add: mark_setup_done_def)
  then show second: "toxenv_setup h again (fst (snd (toxenv_setup h recreate s)))
          = (None, fst (snd (toxenv_setup h recreate s)), [])"
    by (rule toxenv_setup_done)
  assume nr: "\<forall>m. fst (provision h (fst (before_try recreate s))) \<noteq> Some (Recreate m)"
  obtain s0 t0 where b: "before_try recreate s = (s0, t0)" by (cases "before_try recreate s")
  obtain r1 s1 t1 where p: "provision h s0 = (r1, s1, t1)" by (cases "provision h s0") auto
  from nr b p have nr': "\<forall>m. r1 \<noteq> Some (Recreate m)" by simp
  have t0: "count_list t0 (Call SetupEnv) = 0" "count_list t0 (Call SetupWithEnv) = 0"
    using before_try_calls [of recreate s] b by simp_all
  have t1: "count_list t1 (Call SetupEnv) = 1" "count_list t1 (Call SetupWithEnv) = 1"
    using provision_calls(1) [OF p] provision_calls(2) [OF p] nr' by simp_all
  have tr: "snd (snd (toxenv_setup h recreate s)) = t0 @ t1 @ [Call DoneWithSetup]
            \<or> snd (snd (toxenv_setup h recreate s)) = t0 @ t1"
  proof (cases r1)
    case None
    with p toxenv_setup_ok [OF a1 a2 b] show ?thesis by simp
  next
    case (Some e)
    with nr' have "\<forall>m. e \<noteq> Recreate m" by simp
    with Some p toxenv_setup_other [OF a1 a2 b] show ?thesis by simp
  qed
  from tr t0 t1 show "count_list (snd (snd (toxenv_setup h recreate s))
                         @ snd (snd (toxenv_setup h again (fst (snd (toxenv_setup h recreate s))))))
                        (Call SetupEnv) = 1"
    unfolding second by auto
  from tr t0 t1 show "count_list (snd (snd (toxenv_setup h recreate s))
                         @ snd (snd (toxenv_setup h again (fst (snd (toxenv_setup h recreate s))))))
                        (Call SetupWithEnv) = 1"
    unfolding second by auto
qed

theorem setup_idempotent_witness:
  "toxenv_setup example_hooks True (fst (snd (toxenv_setup example_hooks False example_env)))
     = (None, fst (snd (toxenv_setup example_hooks False example_env)), [])
   \<and> count_list (snd (snd (toxenv_setup example_hooks False example_env))
        @ snd (snd (toxenv_setup example_hooks True (fst (snd (toxenv_setup example_hooks False example_env))))))
        (Call SetupWithEnv) = 1"
proof -
  have a: "rs_setup (run_state example_env) = False"
    "platform_check example_env = (None, example_env, [])"
    "fst (provision example_hooks (fst (before_try False example_env))) = None"
    by (simp_all add: model_defs example_defs)
  show ?thesis
    using setup_idempotent [of example_env example_hooks True False] by (auto simp add: a)
qed

text \<open>
  C2 as stated fails where the first call retries: with an installer that asks for
  recreation once, the first call returns normally after a second provisioning attempt,
  the second call is a no-op, and both provisioning methods have run twice.
\<close>

theorem setup_idempotent_counterexample:
  "rs_setup (run_state example_env) = False
   \<and> fst (toxenv_setup drift_hooks False example_env) = None
   \<and> rs_setup (run_state (fst (snd (toxenv_setup drift_hooks False example_env)))) = True
   \<and> fst (toxenv_setup drift_hooks False (fst (snd (toxenv_setup drift_hooks False example_env)))) = None
   \<and> snd (snd (toxenv_setup drift_hooks False (fst (snd (toxenv_setup drift_hooks False example_env))))) = []
   \<and> count_list (snd (snd (toxenv_setup drift_hooks False example_env))
        @ snd (snd (toxenv_setup drift_hooks False (fst (snd (toxenv_setup drift_hooks False example_env))))))
        (Call SetupWithEnv) = 2
   \<and> count_list (snd (snd (toxenv_setup drift_hooks False example_env))
        @ snd (snd (toxenv_setup drift_hooks False (fst (snd (toxenv_setup drift_hooks False example_env))))))
        (Call SetupEnv) = 2"
  by (simp add: model_defs example_defs)

subsection \<open>C3: clean\<close>

text \<open>
  C3 (amended). \<open>_clean(force)\<close> does nothing whenever the cleaned flag is set, whatever
  \<open>force\<close> is. With the flag unset it removes the directory of the environment with all
  that is below it if the directory exists (and touches no other path), leaves the tree
  alone if it does not, resets the fingerprint cache and ends with \<open>setup_done\<close> false and
  \<open>cleaned\<close> true.
\<close>

theorem clean_ignores_force:
  "(rs_clean (run_state s) \<longrightarrow> clean force s = (None, s, [Call (Clean force)]))
   \<and> (\<not> rs_clean (run_state s) \<longrightarrow>
        fst (clean force s) = None
        \<and> (path_exists (env_dir s) (fs s) \<longrightarrow>
             snd (snd (clean force s)) =
               [Call (Clean force), LogWarning (''remove tox env folder '' @ show_path (env_dir s)),
                RmTree (env_dir s), CacheReset]
             \<and> (\<forall>q \<in> set (fs (fst (snd (clean force s)))). \<not> prefix (env_dir s) q)
             \<and> (\<forall>q \<in> set (fs s). \<not> prefix (env_dir s) q \<longrightarrow> q \<in> set (fs (fst (snd (clean force s))))))
        \<and> (\<not> path_exists (env_dir s) (fs s) \<longrightarrow>
             snd (snd (clean force s)) = [Call (Clean force), CacheReset]
             \<and> fs (fst (snd (clean force s))) = fs s)
        \<and> cache (fst (snd (clean force s))) = []
        \<and> rs_setup (run_state (fst (snd (clean force s)))) = False
        \<and> rs_clean (run_state (fst (snd (clean force s)))) = True)"
  by (cases "rs_clean (run_state s)") (auto simp add: clean_noop clean_run rmtree_def)

theorem clean_ignores_force_witness:
  "clean True cleaned_env = (None, cleaned_env, [Call (Clean True)])
   \<and> fst (clean False example_env) = None
   \<and> snd (snd (clean False example_env)) =
        [Call (Clean False), LogWarning ''remove tox env folder /work/py'', RmTree [''work'', ''py''], CacheReset]
   \<and> cache (fst (snd (clean False example_env))) = []
   \<and> rs_setup (run_state (fst (snd (clean False example_env)))) = False
   \<and> rs_clean (run_state (fst (snd (clean False example_env)))) = True"
proof -
  have a: "rs_clean (run_state cleaned_env) = True" "rs_clean (run_state example_env) = False"
    "path_exists [''work'', ''py''] (fs example_env) = True"
    "show_path [''work'', ''py''] = ''/work/py''" "env_dir example_env = [''work'', ''py'']"
    by (simp_all add: example_defs path_exists_def show_path_def)
  show ?thesis
    using clean_ignores_force [of cleaned_env True] clean_ignores_force [of example_env False]
    by (simp add: a)
qed

text \<open>
  C3 as stated fails: with the cleaned flag set, \<open>_clean(force=True)\<close> returns at once;
  the directory is still there and so is the cached fingerprint.
\<close>

theorem clean_force_counterexample:
  "rs_clean (run_state cleaned_env) = True
   \<and> path_exists (env_dir cleaned_env) (fs cleaned_env)
   \<and> clean True cleaned_env = (None, cleaned_env, [Call (Clean True)])
   \<and> path_exists (env_dir cleaned_env) (fs (fst (snd (clean True cleaned_env))))
   \<and> cache (fst (snd (clean True cleaned_env))) = [(''ToxEnv'', (''py'', ''PackageEnv''))]"
  by (simp add: model_defs example_defs)

subsection \<open>C4: the final update of the flags and the completion hook\<close>

text \<open>
  What holds of the \<open>finally\<close> clause. A \<open>setup\<close> call on an environment not yet set up
  whose platform check passes ends, however it ends, with \<open>setup_done\<close> true and \<open>cleaned\<close>
  false. When the provisioning of the \<open>try\<close> body raises nothing, \<open>_done_with_setup\<close> runs on
  the state provisioning left, and the flags are updated on the state the hook returns: the
  hook comes first, and its own exception does not stop the update. An exception of
  provisioning other than \<open>Recreate\<close> reaches the caller with the flags updated.
\<close>

lemma setup_finally_marks_done:
  assumes "rs_setup (run_state s) = False" and "platform_check s = (None, s, [])"
  shows "rs_setup (run_state (fst (snd (toxenv_setup h recreate s)))) = True
       \<and> rs_clean (run_state (fst (snd (toxenv_setup h recreate s)))) = False
       \<and> (\<forall>s1 t1. provision h (fst (before_try recreate s)) = (None, s1, t1) \<longrightarrow>
            toxenv_setup h recreate s =
              (fst (hook_done_with_setup h s1), mark_setup_done (snd (hook_done_with_setup h s1)),
               snd (before_try recreate s) @ t1 @ [Call DoneWithSetup]))
       \<and> (\<forall>e s1 t1. provision h (fst (before_try recreate s)) = (Some e, s1, t1) \<longrightarrow>
            (\<forall>m. e \<noteq> Recreate m) \<longrightarrow>
            toxenv_setup h recreate s = (Some e, mark_setup_done s1, snd (before_try recreate s) @ t1))"
proof -
  obtain s0 t0 where b: "before_try recreate s = (s0, t0)" by (cases "before_try recreate s")
  obtain sx where "fst (snd (toxenv_setup h recreate s)) = mark_setup_done sx"
    using toxenv_setup_shape [OF assms] by blast
  then have flags: "rs_setup (run_state (fst (snd (toxenv_setup h recreate s)))) = True"
    "rs_clean (run_state (fst (snd (toxenv_setup h recreate s)))) = False"
    by (simp_all add: mark_setup_done_def)
  show ?thesis
    using flags toxenv_setup_ok [OF assms b] toxenv_setup_other [OF assms b]
    by (simp add: b)
qed

lemma setup_finally_marks_done_example:
  "fst (toxenv_setup failing_hooks False example_env) = Some (Failure ''install failed'')
   \<and> rs_setup (run_state (fst (snd (toxenv_setup failing_hooks False example_env)))) = True
   \<and> rs_clean (run_state (fst (snd (toxenv_setup failing_hooks False example_env)))) = False
   \<and> snd (snd (toxenv_setup failing_hooks False example_env)) =
        [Call SetupEnv, Mkdir [''work'', ''py'', ''tmp''], Call SetupWithEnv]"
proof -
  have a: "rs_setup (run_state example_env) = False"
    "platform_check example_env = (None, example_env, [])"
    by (simp_all add: model_defs example_defs)
  have "fst (provision failing_hooks (fst (before_try False example_env))) = Some (Failure ''install failed'')"
    by (simp add: model_defs example_defs)
  then have p: "provision failing_hooks (fst (before_try False example_env)) =
      (Some (Failure ''install failed''),
       fst (snd (provision failing_hooks (fst (before_try False example_env)))),
       snd (snd (provision failing_hooks (fst (before_try False example_env)))))"
    by (metis prod.collapse)
  have v: "snd (before_try False example_env) = []"
    "snd (snd (provision failing_hooks (fst (before_try False example_env)))) =
       [Call SetupEnv, Mkdir [''work'', ''py'', ''tmp''], Call SetupWithEnv]"
    by (simp_all add: model_defs example_defs)
  have r: "toxenv_setup failing_hooks False example_env =
           (Some (Failure ''install failed''),
            mark_setup_done (fst (snd (provision failing_hooks (fst (before_try False example_env))))),
            snd (before_try False example_env)
              @ snd (snd (provision failing_hooks (fst (before_try False example_env)))))"
    by (rule setup_finally_marks_done [OF a, of failing_hooks False, THEN conjunct2, THEN conjunct2,
          THEN conjunct2, rule_format, OF p]) simp
  show ?thesis
    unfolding r by (simp add: v mark_setup_done_def)
qed

text \<open>
  C4. The completion hook is not invoked on every successful setup. \<open>_done_with_setup\<close>,
  documented as called when setup is done, stands in the \<open>else\<close> clause of the \<open>try\<close>
  statement, and the \<open>except\<close> clause that repeats \<open>_setup_env\<close> and \<open>_setup_with_env\<close>
  does not repeat it. So where the first provisioning attempt raises \<open>Recreate\<close> and the
  retry succeeds, \<open>setup\<close> returns normally and the environment is marked as set up, but
  the hook was never called: with the hooks of the base class and the fingerprint of
  another class in the cache, and likewise with an installer that asks for recreation
  once. The same holds where the \<open>Recreate\<close> is caught under an effective recreate flag.
  On the path without an exception the hook is the last call before the flags are
  updated.
\<close>

theorem setup_recovered_skips_done_hook:
  "rs_setup (run_state stale_env) = False
   \<and> fst (platform_check stale_env) = None
   \<and> fst (toxenv_setup example_hooks False stale_env) = None
   \<and> rs_setup (run_state (fst (snd (toxenv_setup example_hooks False stale_env)))) = True
   \<and> rs_clean (run_state (fst (snd (toxenv_setup example_hooks False stale_env)))) = False
   \<and> snd (snd (toxenv_setup example_hooks False stale_env)) =
       [Call SetupEnv,
        LogWarning (''recreate env because env type changed from '' @ repr_conf (''py'', ''PackageEnv'')
                    @ '' to '' @ repr_conf (''py'', ''VirtualEnvRunner'')),
        Call (Clean True), LogWarning ''remove tox env folder /work/py'',
        RmTree [''work'', ''py''], CacheReset, Call SetupEnv,
        Mkdir [''work'', ''py'', ''tmp''], Call SetupWithEnv]
   \<and> fst (toxenv_setup drift_hooks False example_env) = None
   \<and> rs_setup (run_state (fst (snd (toxenv_setup drift_hooks False example_env)))) = True
   \<and> snd (snd (toxenv_setup drift_hooks False example_env)) =
       [Call SetupEnv, Mkdir [''work'', ''py'', ''tmp''], Call SetupWithEnv,
        LogWarning ''recreate env because dependencies changed'',
        Call (Clean True), LogWarning ''remove tox env folder /work/py'',
        RmTree [''work'', ''py''], CacheReset, Call SetupEnv,
        Mkdir [''work'', ''py'', ''tmp''], Call SetupWithEnv]
   \<and> fst (toxenv_setup demanding_hooks True example_env) = None
   \<and> rs_setup (run_state (fst (snd (toxenv_setup demanding_hooks True example_env)))) = True
   \<and> snd (snd (toxenv_setup demanding_hooks True example_env)) =
       [Call (Clean False), LogWarning ''remove tox env folder /work/py'',
        RmTree [''work'', ''py''], CacheReset, Call SetupEnv,
        Mkdir [''work'', ''py'', ''tmp''], Call SetupWithEnv]
   \<and> snd (snd (toxenv_setup example_hooks False example_env)) =
       [Call SetupEnv, Mkdir [''work'', ''py'', ''tmp''], Call SetupWithEnv, Call DoneWithSetup]"
  by (simp add: model_defs example_defs stale_env_def)

subsection \<open>C5: the fingerprint in a provisioning attempt\<close>

text \<open>
  C5. In \<open>_setup_env\<close>: a stored fingerprint that differs from the fresh one
  (\<open>name\<close>, \<open>type\<close>) raises \<open>Recreate\<close> with a reason that names both, and nothing is
  changed; with no stored fingerprint nothing is raised and the fresh one is stored as the
  baseline; with an equal stored fingerprint nothing is raised and the cache stays.
\<close>

theorem setup_env_fingerprint:
  "(\<forall>old. map_of (cache s) ''ToxEnv'' = Some old \<and> old \<noteq> (conf_name s, class_name s) \<longrightarrow>
      setup_env s =
        (Some (Recreate (''env type changed from '' @ repr_conf old @ '' to ''
                         @ repr_conf (conf_name s, class_name s))), s, [Call SetupEnv]))
   \<and> (map_of (cache s) ''ToxEnv'' = None \<longrightarrow>
        fst (setup_env s) = None
        \<and> cache (fst (snd (setup_env s))) = AList.update ''ToxEnv'' (conf_name s, class_name s) (cache s)
        \<and> map_of (cache (fst (snd (setup_env s)))) ''ToxEnv'' = Some (conf_name s, class_name s))
   \<and> (map_of (cache s) ''ToxEnv'' = Some (conf_name s, class_name s) \<longrightarrow>
        fst (setup_env s) = None \<and> cache (fst (snd (setup_env s))) = cache s)"
  by (auto simp add: setup_env_changed setup_env_first_run setup_env_same handle_env_tmp_dir_eq update_conv')


theorem setup_env_fingerprint_witness:
  "setup_env cleaned_env =
     (Some (Recreate (''env type changed from '' @ repr_conf (''py'', ''PackageEnv'') @ '' to ''
                      @ repr_conf (''py'', ''VirtualEnvRunner''))), cleaned_env, [Call SetupEnv])
   \<and> fst (setup_env example_env) = None
   \<and> cache (fst (snd (setup_env example_env))) = [(''ToxEnv'', (''py'', ''VirtualEnvRunner''))]"
proof -
  have a: "map_of (cache cleaned_env) ''ToxEnv'' = Some (''py'', ''PackageEnv'')"
    "conf_name cleaned_env = ''py''" "class_name cleaned_env = ''VirtualEnvRunner''"
    "map_of (cache example_env) ''ToxEnv'' = None" "cache example_env = []"
    "conf_name example_env = ''py''" "class_name example_env = ''VirtualEnvRunner''"
    by (simp_all add: example_defs)
  show ?thesis
    using setup_env_fingerprint [of cleaned_env] setup_env_fingerprint [of example_env]
    by (simp add: a)
qed

subsection \<open>C6: the order in which the mapping is assembled\<close>

text \<open>
  C6. On its first evaluation (nothing memoized, the glob entries compile, the names of
  the process environment are distinct) \<open>_environment_variables\<close> returns and memoizes a
  mapping whose keys stand in the order: the literal entries present in the process
  environment, the names of the process environment that a glob entry matches (all of
  them, in the order of the environment), \<open>PATH\<close>, the keys of \<open>set_env\<close>, each key at its
  first place. The value of a \<open>set_env\<close> key is what \<open>load\<close> gave for it; \<open>PATH\<close>, unless
  overridden, is the computed path; any other name has its value of the process
  environment when a literal entry names it or a glob entry matches it, and is absent
  otherwise. For the pattern \<open>FOO*\<close>, the process environment \<open>FOOBAR=1\<close> and the override
  \<open>FOOBAR=2\<close> the mapping has \<open>FOOBAR = 2\<close>.
\<close>

theorem environment_variables_order:
  assumes "env_vars s = None"
    and "compile_all (map replace_star (filter has_star (conf_pass_env s))) = Inr globs"
    and "distinct (map fst (os_environ s))"
  shows "(\<exists>result.
     environment_variables h s = (Inr result, s\<lparr>env_vars := Some result\<rparr>)
     \<and> map fst result =
         dedup_first
           (filter (\<lambda>e. map_of (os_environ s) e \<noteq> None) (filter (\<lambda>e. \<not> has_star e) (conf_pass_env s))
            @ map fst (filter (\<lambda>(env, value). list_ex (\<lambda>g. re_match g env) globs) (os_environ s))
            @ [''PATH''] @ conf_set_env s)
     \<and> (\<forall>k \<in> set (conf_set_env s). \<exists>m. map_of result k = Some (set_env_load h m k))
     \<and> (''PATH'' \<notin> set (conf_set_env s) \<longrightarrow> map_of result ''PATH'' = Some (make_path s))
     \<and> (\<forall>k. k \<notin> set (conf_set_env s) \<and> k \<noteq> ''PATH'' \<longrightarrow>
          map_of result k =
            (if (k \<in> set (conf_pass_env s) \<and> \<not> has_star k) \<or> list_ex (\<lambda>g. re_match g k) globs
             then map_of (os_environ s) k else None)))
     \<and> fst (environment_variables example_hooks precedence_env)
         = Inr [(''FOOBAR'', ''2''), (''PATH'', ''/a:/b:'')]"
proof
  show "\<exists>result.
     environment_variables h s = (Inr result, s\<lparr>env_vars := Some result\<rparr>)
     \<and> map fst result =
         dedup_first
           (filter (\<lambda>e. map_of (os_environ s) e \<noteq> None) (filter (\<lambda>e. \<not> has_star e) (conf_pass_env s))
            @ map fst (filter (\<lambda>(env, value). list_ex (\<lambda>g. re_match g env) globs) (os_environ s))
            @ [''PATH''] @ conf_set_env s)
     \<and> (\<forall>k \<in> set (conf_set_env s). \<exists>m. map_of result k = Some (set_env_load h m k))
     \<and> (''PATH'' \<notin> set (conf_set_env s) \<longrightarrow> map_of result ''PATH'' = Some (make_path s))
     \<and> (\<forall>k. k \<notin> set (conf_set_env s) \<and> k \<noteq> ''PATH'' \<longrightarrow>
          map_of result k =
            (if (k \<in> set (conf_pass_env s) \<and> \<not> has_star k) \<or> list_ex (\<lambda>g. re_match g k) globs
             then map_of (os_environ s) k else None))"
    by (rule environment_variables_resolved [OF assms])
  show "fst (environment_variables example_hooks precedence_env)
         = Inr [(''FOOBAR'', ''2''), (''PATH'', ''/a:/b:'')]"
    by (simp add: env_defs example_defs)
qed

theorem environment_variables_order_witness:
  "map_of (projr (fst (environment_variables example_hooks precedence_env))) ''FOOBAR'' = Some ''2''
   \<and> map fst (projr (fst (environment_variables example_hooks precedence_env))) = [''FOOBAR'', ''PATH'']"
proof -
  have a: "env_vars precedence_env = None"
    "compile_all (map replace_star (filter has_star (conf_pass_env precedence_env)))
       = Inr [[One (Lit (CHR ''F'')), One (Lit (CHR ''O'')), One (Lit (CHR ''O'')), Star AnyChar]]"
    "distinct (map fst (os_environ precedence_env))"
    by (simp_all add: env_defs example_defs)
  from environment_variables_order [OF a, of example_hooks]
  obtain result where r:
    "environment_variables example_hooks precedence_env
       = (Inr result, precedence_env\<lparr>env_vars := Some result\<rparr>)"
    "map fst result =
         dedup_first
           (filter (\<lambda>e. map_of (os_environ precedence_env) e \<noteq> None)
              (filter (\<lambda>e. \<not> has_star e) (conf_pass_env precedence_env))
            @ map fst (filter (\<lambda>(env, value). list_ex (\<lambda>g. re_match g env)
                 [[One (Lit (CHR ''F'')), One (Lit (CHR ''O'')), One (Lit (CHR ''O'')), Star AnyChar]])
                 (os_environ precedence_env))
            @ [''PATH''] @ conf_set_env precedence_env)"
    "\<forall>k \<in> set (conf_set_env precedence_env). \<exists>m. map_of result k = Some (set_env_load example_hooks m k)"
    by blast
  from r(3) have "map_of result ''FOOBAR'' = Some ''2''"
    by (simp add: example_defs precedence_env_def)
  moreover from r(2) have "map fst result = [''FOOBAR'', ''PATH'']"
    by (simp add: example_defs precedence_env_def has_star_def re_match_def)
  ultimately show ?thesis using r(1) by simp
qed

subsection \<open>C7: a new path list and the memoized mapping\<close>

text \<open>
  C7. With a memoized mapping, assigning the path list stores the list and overwrites the
  \<open>PATH\<close> entry of the mapping with the newly computed path: every other key keeps its
  value, the keys keep their order when \<open>PATH\<close> was among them, nothing else of the state
  changes, and the next evaluation of \<open>_environment_variables\<close> returns this mapping as it
  is, without computing it again.
\<close>

theorem set_paths_rewrites_path_only:
  assumes "env_vars s = Some m"
  shows "\<exists>m'. set_paths v s = s\<lparr>paths_private := v, env_vars := Some m'\<rparr>
     \<and> m' = AList.update ''PATH'' (make_path_of (pathsep s) v (os_environ s)) m
     \<and> (\<forall>k. k \<noteq> ''PATH'' \<longrightarrow> map_of m' k = map_of m k)
     \<and> map_of m' ''PATH'' = Some (make_path_of (pathsep s) v (os_environ s))
     \<and> (''PATH'' \<in> fst ` set m \<longrightarrow> map fst m' = map fst m)
     \<and> environment_variables h (set_paths v s) = (Inr m', set_paths v s)"
  using assms
  by (simp add: set_paths_def Let_def make_path_def update_conv' update_keys
      environment_variables_cached)

theorem set_paths_rewrites_path_only_witness:
  "env_vars (set_paths [''/x''] (snd (environment_variables example_hooks example_env)))
     = Some [(''FOOBAR'', ''2''), (''PATH'', ''/x:/b:/c'')]"
proof -
  have a: "env_vars (snd (environment_variables example_hooks example_env))
     = Some [(''FOOBAR'', ''2''), (''PATH'', ''/a:/b:/c'')]"
    by (simp add: env_defs example_defs)
  have b: "pathsep (snd (environment_variables example_hooks example_env)) = CHR '':''"
    "os_environ (snd (environment_variables example_hooks example_env))
       = [(''FOOBAR'', ''1''), (''HOME'', ''/root''), (''PATH'', ''/b:/c'')]"
    by (simp_all add: env_defs example_defs)
  from set_paths_rewrites_path_only [OF a, of "[''/x'']" example_hooks]
  obtain m' where m: "set_paths [''/x''] (snd (environment_variables example_hooks example_env))
       = (snd (environment_variables example_hooks example_env))\<lparr>paths_private := [''/x''], env_vars := Some m'\<rparr>"
    "m' = AList.update ''PATH'' (make_path_of (pathsep (snd (environment_variables example_hooks example_env))) [''/x'']
             (os_environ (snd (environment_variables example_hooks example_env))))
           [(''FOOBAR'', ''2''), (''PATH'', ''/a:/b:/c'')]"
    by blast
  show ?thesis
    unfolding m(1) by (simp add: m(2) b make_path_of_def dict_fromkeys_def dict_update_def dict_get_def)
qed

subsection \<open>C8: the search path\<close>

text \<open>
  C8. \<open>_make_path\<close> joins, with the path separator, the owned directories followed by the
  fields of the inherited \<open>PATH\<close> (split on the separator, the empty string when \<open>PATH\<close> is
  unset), each kept at its first occurrence only; the result of the de-duplication has no
  duplicates and loses no entry. For the owned paths \<open>/a\<close>, \<open>/b\<close> and the inherited path
  \<open>/b:/c\<close> the result is \<open>/a:/b:/c\<close>.
\<close>

theorem make_path_first_occurrence:
  "make_path s =
     join (pathsep s)
       (dedup_first (paths_private s @ split_sep (pathsep s) (dict_get (os_environ s) ''PATH'' [])))
   \<and> distinct (dedup_first (paths_private s @ split_sep (pathsep s) (dict_get (os_environ s) ''PATH'' [])))
   \<and> set (dedup_first (paths_private s @ split_sep (pathsep s) (dict_get (os_environ s) ''PATH'' [])))
       = set (paths_private s) \<union> set (split_sep (pathsep s) (dict_get (os_environ s) ''PATH'' []))
   \<and> make_path_of (CHR '':'') [''/a'', ''/b''] [(''PATH'', ''/b:/c'')] = ''/a:/b:/c''
   \<and> dedup_first (''/a'' # ''/b'' # split_sep (CHR '':'') ''/b:/c'') = [''/a'', ''/b'', ''/c'']"
  by (simp add: make_path_def make_path_of_dedup distinct_dedup_first set_dedup_first dict_get_def)

theorem make_path_first_occurrence_witness:
  "make_path example_env = ''/a:/b:/c''"
  using make_path_first_occurrence [of example_env]
  by (simp add: example_env_def dict_get_def)

subsection \<open>C9: no execution after an interrupt\<close>

text \<open>
  C9. \<open>interrupt\<close> sets the interrupted flag, no call of the class clears it (the
  overridden methods are taken not to clear it either), and with the flag set
  \<open>execute_async\<close> raises \<open>SystemExit(-2)\<close> before anything else: the state is as it was,
  so no working directory was resolved into a request and no mapping computed, and there
  is no event, so nothing was logged and the executor was not called. This holds for every
  \<open>execute_async\<close> call after the interrupt, whatever calls were made in between.
\<close>

theorem execute_async_after_interrupt:
  assumes "\<And>s. interrupted s \<Longrightarrow> interrupted (snd (hook_setup_with_env h s))"
    and "\<And>s. interrupted s \<Longrightarrow> interrupted (snd (hook_done_with_setup h s))"
    and "\<And>s. interrupted s \<Longrightarrow> interrupted (snd (hook_teardown h s))"
  shows "interrupted (fst (snd (interrupt s)))
     \<and> execute_async h cmd stdin show cwd run_id executor (perform_all h ops (fst (snd (interrupt s))))
         = (Inl (SystemExit (- 2)), perform_all h ops (fst (snd (interrupt s))), [])"
proof -
  have i: "interrupted (fst (snd (interrupt s)))" by (simp add: interrupt_eq)
  from perform_all_keeps [OF assms i] have "interrupted (perform_all h ops (fst (snd (interrupt s))))" .
  with i show ?thesis by (simp add: execute_async_interrupted)
qed

theorem execute_async_after_interrupt_witness:
  "execute_async example_hooks [''pytest''] OFF None None ''commands[0]'' None
      (perform_all example_hooks [OpSetup True, OpEnvironmentVariables, OpSetPaths [''/x''], OpTeardown]
         (fst (snd (interrupt example_env))))
     = (Inl (SystemExit (- 2)),
        perform_all example_hooks [OpSetup True, OpEnvironmentVariables, OpSetPaths [''/x''], OpTeardown]
          (fst (snd (interrupt example_env))), [])
   \<and> fst (execute_async example_hooks [''pytest''] OFF None None ''commands[0]'' None example_env) = Inr 7
   \<and> snd (snd (execute_async example_hooks [''pytest''] OFF None None ''commands[0]'' None example_env))
       = [LogCommand ''commands[0]'' [] [''pytest''],
          ExecutorCall \<lparr>req_cmd = [''pytest''], req_cwd = [''work''],
                         req_env = [(''FOOBAR'', ''2''), (''PATH'', ''/a:/b:/c'')],
                         req_stdin = OFF, req_run_id = ''commands[0]''\<rparr> False]"
proof -
  have h: "interrupted (snd (hook_setup_with_env example_hooks s))"
    "interrupted (snd (hook_done_with_setup example_hooks s))"
    "interrupted (snd (hook_teardown example_hooks s))" if "interrupted s" for s
    using that by (simp_all add: example_defs)
  have e: "fst (execute_async example_hooks [''pytest''] OFF None None ''commands[0]'' None example_env) = Inr 7"
    "snd (snd (execute_async example_hooks [''pytest''] OFF None None ''commands[0]'' None example_env))
       = [LogCommand ''commands[0]'' [] [''pytest''],
          ExecutorCall \<lparr>req_cmd = [''pytest''], req_cwd = [''work''],
                         req_env = [(''FOOBAR'', ''2''), (''PATH'', ''/a:/b:/c'')],
                         req_stdin = OFF, req_run_id = ''commands[0]''\<rparr> False]"
    by (simp_all add: execute_async_def env_defs example_defs)
  show ?thesis
    using execute_async_after_interrupt [of example_hooks example_env "[''pytest'']" OFF None None
        "''commands[0]''" None "[OpSetup True, OpEnvironmentVariables, OpSetPaths [''/x''], OpTeardown]", OF h]
      e
    by simp
qed

subsection \<open>C10: a glob entry matches at the start of a name\<close>

text \<open>
  C10. An entry of \<open>pass_env\<close> with a \<open>*\<close> is compiled from the entry with every \<open>*\<close>
  replaced by \<open>.*\<close> and matched at the start of each name of the process environment:
  a name is copied into the mapping whenever some prefix of it is in the language of the
  compiled pattern, and, unless \<open>PATH\<close> or an override takes its place, its value is that
  of the process environment exactly when such a glob entry exists or an entry without
  \<open>*\<close> equals the name. \<open>re_match\<close> is the prefix match. The pattern \<open>A*B\<close> becomes
  \<open>A.*B\<close> and matches every name \<open>A\<dots>B\<dots>\<close>, whatever follows the \<open>B\<close>, where a match
  up to the end of the name would fail.
\<close>

theorem glob_pass_env_prefix_match:
  assumes "env_vars s = None"
    and "compile_all (map replace_star (filter has_star (conf_pass_env s))) = Inr globs"
    and "distinct (map fst (os_environ s))"
    and "(n, v) \<in> set (os_environ s)"
  shows "(\<exists>result. fst (environment_variables h s) = Inr result
     \<and> ((\<exists>p \<in> set (conf_pass_env s). has_star p \<and>
            (\<exists>g. re_compile (replace_star p) = Some g \<and> (\<exists>u. prefix u n \<and> u \<in> lang g)))
          \<longrightarrow> n \<in> fst ` set result)
     \<and> (n \<notin> set (conf_set_env s) \<and> n \<noteq> ''PATH'' \<longrightarrow>
          map_of result n =
            (if (n \<in> set (conf_pass_env s) \<and> \<not> has_star n)
                \<or> (\<exists>p \<in> set (conf_pass_env s). has_star p \<and>
                     (\<exists>g. re_compile (replace_star p) = Some g \<and> (\<exists>u. prefix u n \<and> u \<in> lang g)))
             then Some v else None)))
   \<and> (\<forall>g x. re_match g x \<longleftrightarrow> (\<exists>u. prefix u x \<and> u \<in> lang g))
   \<and> re_compile (replace_star ''A*B'') = Some [One (Lit (CHR ''A'')), Star AnyChar, One (Lit (CHR ''B''))]
   \<and> (\<forall>mid rest. CHR 0x0A \<notin> set mid \<longrightarrow>
        re_match [One (Lit (CHR ''A'')), Star AnyChar, One (Lit (CHR ''B''))] (''A'' @ mid @ ''B'' @ rest))
   \<and> \<not> re_fullmatch [One (Lit (CHR ''A'')), Star AnyChar, One (Lit (CHR ''B''))] ''AxBzzz''"
proof -
  let ?glob = "\<exists>p \<in> set (conf_pass_env s). has_star p \<and>
            (\<exists>g. re_compile (replace_star p) = Some g \<and> (\<exists>u. prefix u n \<and> u \<in> lang g))"
  from environment_variables_resolved [OF assms(1-3), of h]
  obtain result where r:
    "environment_variables h s = (Inr result, s\<lparr>env_vars := Some result\<rparr>)"
    "map fst result =
         dedup_first
           (filter (\<lambda>e. map_of (os_environ s) e \<noteq> None) (filter (\<lambda>e. \<not> has_star e) (conf_pass_env s))
            @ map fst (filter (\<lambda>(env, value). list_ex (\<lambda>g. re_match g env) globs) (os_environ s))
            @ [''PATH''] @ conf_set_env s)"
    "\<forall>k. k \<notin> set (conf_set_env s) \<and> k \<noteq> ''PATH'' \<longrightarrow>
          map_of result k =
            (if (k \<in> set (conf_pass_env s) \<and> \<not> has_star k) \<or> list_ex (\<lambda>g. re_match g k) globs
             then map_of (os_environ s) k else None)"
    by blast
  have g: "list_ex (\<lambda>g. re_match g n) globs \<longleftrightarrow> ?glob"
    by (rule glob_match_iff [OF assms(2)])
  have v: "map_of (os_environ s) n = Some v"
    using assms(3,4) by simp
  have "set (map fst result) \<supseteq> set (map fst (filter (\<lambda>(env, value). list_ex (\<lambda>g. re_match g env) globs) (os_environ s)))"
    unfolding r(2) set_dedup_first by auto
  moreover have "?glob \<Longrightarrow> n \<in> set (map fst (filter (\<lambda>(env, value). list_ex (\<lambda>g. re_match g env) globs) (os_environ s)))"
    using g assms(4) by force
  ultimately have copied: "?glob \<longrightarrow> n \<in> fst ` set result" by auto
  have val: "n \<notin> set (conf_set_env s) \<and> n \<noteq> ''PATH'' \<longrightarrow>
          map_of result n = (if (n \<in> set (conf_pass_env s) \<and> \<not> has_star n) \<or> ?glob then Some v else None)"
  proof (intro impI)
    assume a: "n \<notin> set (conf_set_env s) \<and> n \<noteq> ''PATH''"
    with r(3) have "map_of result n =
            (if (n \<in> set (conf_pass_env s) \<and> \<not> has_star n) \<or> list_ex (\<lambda>g. re_match g n) globs
             then map_of (os_environ s) n else None)"
      by blast
    then show "map_of result n = (if (n \<in> set (conf_pass_env s) \<and> \<not> has_star n) \<or> ?glob then Some v else None)"
      unfolding g v .
  qed
  have first: "\<exists>result. fst (environment_variables h s) = Inr result
     \<and> (?glob \<longrightarrow> n \<in> fst ` set result)
     \<and> (n \<notin> set (conf_set_env s) \<and> n \<noteq> ''PATH'' \<longrightarrow>
          map_of result n = (if (n \<in> set (conf_pass_env s) \<and> \<not> has_star n) \<or> ?glob then Some v else None))"
    using r(1) copied val by (intro exI [of _ result]) simp
  have ex: "\<not> re_fullmatch [One (Lit (CHR ''A'')), Star AnyChar, One (Lit (CHR ''B''))] ''AxBzzz''"
    by (simp add: re_fullmatch_def)
  show ?thesis
    using first re_match_prefix glob_example ex by blast
qed

theorem glob_pass_env_prefix_match_witness:
  "map_of (projr (fst (environment_variables example_hooks glob_env))) ''HOME'' = Some ''/root''
   \<and> \<not> re_fullmatch [One (Lit (CHR ''H'')), Star AnyChar, One (Lit (CHR ''M''))] ''HOME''"
proof -
  let ?g = "[One (Lit (CHR ''H'')), Star AnyChar, One (Lit (CHR ''M''))]"
  have a: "env_vars glob_env = None"
    "compile_all (map replace_star (filter has_star (conf_pass_env glob_env))) = Inr [?g]"
    "distinct (map fst (os_environ glob_env))"
    "(''HOME'', ''/root'') \<in> set (os_environ glob_env)"
    by (simp_all add: env_defs example_defs glob_env_def)
  have "re_match ?g ''HOME''" by (simp add: re_match_def)
  then have "\<exists>u. prefix u ''HOME'' \<and> u \<in> lang ?g" by (simp only: re_match_prefix)
  moreover have "''H*M'' \<in> set (conf_pass_env glob_env)" "has_star ''H*M''"
    "re_compile (replace_star ''H*M'') = Some ?g"
    by (simp_all add: env_defs example_defs glob_env_def)
  ultimately have c: "\<exists>p \<in> set (conf_pass_env glob_env). has_star p \<and>
            (\<exists>g. re_compile (replace_star p) = Some g \<and> (\<exists>u. prefix u ''HOME'' \<and> u \<in> lang g))"
    by blast
  have d: "''HOME'' \<notin> set (conf_set_env glob_env) \<and> ''HOME'' \<noteq> ''PATH''"
    by (simp add: example_defs glob_env_def)
  from glob_pass_env_prefix_match [OF a, of example_hooks]
  obtain result where r: "fst (environment_variables example_hooks glob_env) = Inr result"
    "''HOME'' \<notin> set (conf_set_env glob_env) \<and> ''HOME'' \<noteq> ''PATH'' \<longrightarrow>
          map_of result ''HOME'' =
            (if (''HOME'' \<in> set (conf_pass_env glob_env) \<and> \<not> has_star ''HOME'')
                \<or> (\<exists>p \<in> set (conf_pass_env glob_env). has_star p \<and>
                     (\<exists>g. re_compile (replace_star p) = Some g \<and> (\<exists>u. prefix u ''HOME'' \<and> u \<in> lang g)))
             then Some ''/root'' else None)"
    by blast
  from r(2) c d have "map_of result ''HOME'' = Some ''/root''" by simp
  moreover have "\<not> re_fullmatch ?g ''HOME''" by (simp add: re_fullmatch_def)
  ultimately show ?thesis using r(1) by simp
qed

end
